theory Spec2Isabelle
  imports Complex_Main "HOL-Library.AList"
begin

section \<open>Strings\<close>

text \<open>
  Python strings are modelled as \<^typ>\<open>string\<close> over ASCII text: the character tests
  below are the ASCII part of \<open>str.isupper\<close>, \<open>str.isspace\<close> and of the classes
  \<open>\w\<close>, \<open>\s\<close>, \<open>[A-Z]\<close>, \<open>[a-z]\<close> of the \<open>re\<close> module; a character above 127
  is treated as a caseless symbol outside every class.
\<close>

definition is_upper :: "char \<Rightarrow> bool" where
  "is_upper c = (let n = (of_char c :: nat) in 65 \<le> n \<and> n \<le> 90)"

definition is_lower :: "char \<Rightarrow> bool" where
  "is_lower c = (let n = (of_char c :: nat) in 97 \<le> n \<and> n \<le> 122)"

definition is_digit :: "char \<Rightarrow> bool" where
  "is_digit c = (let n = (of_char c :: nat) in 48 \<le> n \<and> n \<le> 57)"

definition is_word :: "char \<Rightarrow> bool" where
  "is_word c = (is_upper c \<or> is_lower c \<or> is_digit c \<or> c = CHR ''_'')"

definition is_space :: "char \<Rightarrow> bool" where
  "is_space c = (let n = (of_char c :: nat) in (9 \<le> n \<and> n \<le> 13) \<or> (28 \<le> n \<and> n \<le> 32))"

definition lower_char :: "char \<Rightarrow> char" where
  "lower_char c = (if is_upper c then char_of (of_char c + (32::nat)) else c)"

definition lower :: "string \<Rightarrow> string" where
  "lower s = map lower_char s"

definition strip :: "string \<Rightarrow> string" where
  "strip s = rev (dropWhile is_space (rev (dropWhile is_space s)))"

fun starts_with :: "string \<Rightarrow> string \<Rightarrow> bool" where
  "starts_with [] b = True"
| "starts_with (x # xs) [] = False"
| "starts_with (x # xs) (y # ys) = (x = y \<and> starts_with xs ys)"

text \<open>\<open>is_in a b\<close> is Python's \<open>a in b\<close> on strings.\<close>

fun is_in :: "string \<Rightarrow> string \<Rightarrow> bool" where
  "is_in a [] = (a = [])"
| "is_in a (c # cs) = (starts_with a (c # cs) \<or> is_in a cs)"

fun join_with :: "string \<Rightarrow> string list \<Rightarrow> string" where
  "join_with sep [] = []"
| "join_with sep [x] = x"
| "join_with sep (x # y # ys) = x @ sep @ join_with sep (y # ys)"

section \<open>Regular expressions\<close>

text \<open>
  The patterns of the program are written in a small abstract syntax and matched by
  backtracking, as the \<open>re\<close> module does: \<open>matches r s\<close> lists, in the order in which the
  backtracking matcher tries them, every state in which \<open>r\<close> can stop when started in
  state \<open>s\<close>; the head of the list is the match that \<open>re\<close> reports.
\<close>

datatype cclass = Word | Space | Upper | Lower | NotQuote | AnyChar | Lit char | LitCI char

fun cls :: "cclass \<Rightarrow> char \<Rightarrow> bool" where
  "cls Word c = is_word c"
| "cls Space c = is_space c"
| "cls Upper c = is_upper c"
| "cls Lower c = is_lower c"
| "cls NotQuote c = (c \<noteq> CHR 0x22)"
| "cls AnyChar c = (c \<noteq> CHR 0x0A)"
| "cls (Lit x) c = (c = x)"
| "cls (LitCI x) c = (lower_char c = lower_char x)"

datatype re = Eps | Atom cclass | Seq re re | Alt re re | Star re | Lazy re | Group nat re | Bnd

record mstate =
  prev :: "char option"
  rest :: string
  caps :: "(nat \<times> string) list"

text \<open>
  Greedy and lazy repetition. An iteration that consumes nothing ends the repetition, and
  every iteration that counts shortens the rest, so \<open>length (rest s)\<close> iterations are
  always enough (lemma \<open>star_greedy_fuel\<close> below).
\<close>

fun star_greedy :: "(mstate \<Rightarrow> mstate list) \<Rightarrow> nat \<Rightarrow> mstate \<Rightarrow> mstate list" where
  "star_greedy f 0 s = [s]"
| "star_greedy f (Suc n) s =
     concat (map (\<lambda>s'. if length (rest s') < length (rest s) then star_greedy f n s' else [])
                 (f s)) @ [s]"

fun star_lazy :: "(mstate \<Rightarrow> mstate list) \<Rightarrow> nat \<Rightarrow> mstate \<Rightarrow> mstate list" where
  "star_lazy f 0 s = [s]"
| "star_lazy f (Suc n) s =
     s # concat (map (\<lambda>s'. if length (rest s') < length (rest s) then star_lazy f n s' else [])
                     (f s))"

definition word_at :: "char option \<Rightarrow> bool" where
  "word_at c = (case c of None \<Rightarrow> False | Some x \<Rightarrow> is_word x)"

definition next_char :: "string \<Rightarrow> char option" where
  "next_char s = (case s of [] \<Rightarrow> None | x # _ \<Rightarrow> Some x)"

primrec matches :: "re \<Rightarrow> mstate \<Rightarrow> mstate list" where
  "matches Eps s = [s]"
| "matches (Atom c) s =
     (case rest s of [] \<Rightarrow> []
      | x # xs \<Rightarrow> if cls c x then [s\<lparr>prev := Some x, rest := xs\<rparr>] else [])"
| "matches (Seq a b) s = concat (map (matches b) (matches a s))"
| "matches (Alt a b) s = matches a s @ matches b s"
| "matches (Star r) s = star_greedy (matches r) (length (rest s)) s"
| "matches (Lazy r) s = star_lazy (matches r) (length (rest s)) s"
| "matches (Group i r) s =
     map (\<lambda>s'. s'\<lparr>caps := (i, take (length (rest s) - length (rest s')) (rest s)) # caps s'\<rparr>)
         (matches r s)"
| "matches Bnd s = (if word_at (prev s) \<noteq> word_at (next_char (rest s)) then [s] else [])"

text \<open>A match object: the matched text and the captured groups, the latest capture first.\<close>

record rmatch =
  whole :: string
  groups :: "(nat \<times> string) list"

definition mk_match :: "string \<Rightarrow> mstate \<Rightarrow> rmatch" where
  "mk_match s e = \<lparr>whole = take (length s - length (rest e)) s, groups = caps e\<rparr>"

text \<open>\<open>match.group(i)\<close>: \<open>None\<close> when group \<open>i\<close> took no part in the match.\<close>

definition group :: "rmatch \<Rightarrow> nat \<Rightarrow> string option" where
  "group m i = map_of (groups m) i"

text \<open>\<open>re.search\<close>: the first match at the leftmost position that has one.\<close>

fun search_from :: "re \<Rightarrow> char option \<Rightarrow> string \<Rightarrow> rmatch option" where
  "search_from r p [] =
     (case matches r \<lparr>prev = p, rest = [], caps = []\<rparr> of
        [] \<Rightarrow> None
      | e # _ \<Rightarrow> Some (mk_match [] e))"
| "search_from r p (c # cs) =
     (case matches r \<lparr>prev = p, rest = c # cs, caps = []\<rparr> of
        [] \<Rightarrow> search_from r (Some c) cs
      | e # _ \<Rightarrow> Some (mk_match (c # cs) e))"

definition search :: "re \<Rightarrow> string \<Rightarrow> rmatch option" where
  "search r s = search_from r None s"

text \<open>
  \<open>re.finditer\<close>: the non-overlapping matches from left to right. \<open>k\<close> counts the
  characters still covered by the previous match. No pattern of the program matches the
  empty string; after an empty match the scan moves on by one character.
\<close>

fun finditer_from :: "re \<Rightarrow> nat \<Rightarrow> char option \<Rightarrow> string \<Rightarrow> rmatch list" where
  "finditer_from r k p [] =
     (if k = 0 then (case matches r \<lparr>prev = p, rest = [], caps = []\<rparr> of
                       [] \<Rightarrow> []
                     | e # _ \<Rightarrow> [mk_match [] e])
      else [])"
| "finditer_from r k p (c # cs) =
     (if 0 < k then finditer_from r (k - 1) (Some c) cs
      else (case matches r \<lparr>prev = p, rest = c # cs, caps = []\<rparr> of
              [] \<Rightarrow> finditer_from r 0 (Some c) cs
            | e # _ \<Rightarrow> mk_match (c # cs) e #
                       finditer_from r (length (whole (mk_match (c # cs) e)) - 1) (Some c) cs))"

definition finditer :: "re \<Rightarrow> string \<Rightarrow> rmatch list" where
  "finditer r s = finditer_from r 0 None s"

text \<open>
  \<open>re.findall\<close> returns the matched texts for a pattern without groups and the texts of
  group 1 (empty when the group took no part) for a pattern with one group.
\<close>

definition findall :: "re \<Rightarrow> string \<Rightarrow> string list" where
  "findall r s = map whole (finditer r s)"

definition findall_group :: "re \<Rightarrow> string \<Rightarrow> string list" where
  "findall_group r s = map (\<lambda>m. case group m 1 of None \<Rightarrow> [] | Some g \<Rightarrow> g) (finditer r s)"

subsection \<open>Pattern notation\<close>

definition one_or_more :: "re \<Rightarrow> re" where
  "one_or_more r = Seq r (Star r)"

definition seqs :: "re list \<Rightarrow> re" where
  "seqs rs = foldr Seq rs Eps"

definition lit :: "string \<Rightarrow> re" where
  "lit s = seqs (map (\<lambda>c. Atom (Lit c)) s)"

text \<open>A literal under \<open>re.IGNORECASE\<close>.\<close>

definition lit_ci :: "string \<Rightarrow> re" where
  "lit_ci s = seqs (map (\<lambda>c. Atom (LitCI c)) s)"

text \<open>\<open>\b[A-Z][a-z]+(?:\s+[A-Z][a-z]+)*\b\<close>\<close>

definition capitalized_re :: re where
  "capitalized_re =
     seqs [Bnd, Atom Upper, one_or_more (Atom Lower),
           Star (seqs [one_or_more (Atom Space), Atom Upper, one_or_more (Atom Lower)]),
           Bnd]"

text \<open>\<open>"([^"]*)"\<close>\<close>

definition quoted_re :: re where
  "quoted_re = seqs [Atom (Lit (CHR 0x22)), Group 1 (Star (Atom NotQuote)), Atom (Lit (CHR 0x22))]"

text \<open>\<open>(\w+(?:\s+\w+)*)\<close> as group \<open>i\<close>.\<close>

definition noun_phrase :: "nat \<Rightarrow> re" where
  "noun_phrase i =
     Group i (Seq (one_or_more (Atom Word))
                  (Star (Seq (one_or_more (Atom Space)) (one_or_more (Atom Word)))))"

definition spaces :: re where
  "spaces = one_or_more (Atom Space)"

section \<open>The directed graph\<close>

text \<open>
  \<open>networkx.DiGraph\<close> keeps its nodes and, for each node, its successors and predecessors
  in dictionaries, which iterate in insertion order. The model keeps the nodes and the
  edges as association lists in insertion order, each with its attribute dictionary; the
  successors of a node are the targets of its edges in that order.
\<close>

type_synonym attrs = "(string \<times> string) list"

record digraph =
  nodes :: "(string \<times> attrs) list"
  edges :: "((string \<times> string) \<times> attrs) list"

definition empty_graph :: digraph where
  "empty_graph = \<lparr>nodes = [], edges = []\<rparr>"

definition node_labels :: "digraph \<Rightarrow> string list" where
  "node_labels g = map fst (nodes g)"

definition has_node :: "digraph \<Rightarrow> string \<Rightarrow> bool" where
  "has_node g n = (n \<in> set (node_labels g))"

definition has_edge :: "digraph \<Rightarrow> string \<Rightarrow> string \<Rightarrow> bool" where
  "has_edge g u v = ((u, v) \<in> set (map fst (edges g)))"

definition number_of_nodes :: "digraph \<Rightarrow> nat" where
  "number_of_nodes g = length (nodes g)"

text \<open>\<open>dict.update\<close> and \<open>dict.get\<close> with a default.\<close>

definition dict_update :: "('k \<times> 'v) list \<Rightarrow> ('k \<times> 'v) list \<Rightarrow> ('k \<times> 'v) list" where
  "dict_update d new = fold (\<lambda>kv. AList.update (fst kv) (snd kv)) new d"

definition dict_get :: "('k \<times> 'v) list \<Rightarrow> 'k \<Rightarrow> 'v \<Rightarrow> 'v" where
  "dict_get d k dflt = (case map_of d k of None \<Rightarrow> dflt | Some v \<Rightarrow> v)"

definition add_node :: "string \<Rightarrow> attrs \<Rightarrow> digraph \<Rightarrow> digraph" where
  "add_node n a g = g\<lparr>nodes := AList.update n (dict_update (dict_get (nodes g) n []) a) (nodes g)\<rparr>"

definition add_missing :: "string \<Rightarrow> (string \<times> attrs) list \<Rightarrow> (string \<times> attrs) list" where
  "add_missing n ns = (if n \<in> fst ` set ns then ns else ns @ [(n, [])])"

text \<open>
  \<open>add_edge\<close> first adds the end points that are not nodes yet, then updates the attribute
  dictionary of the edge in place, or appends the edge when the pair has none.
\<close>

definition add_edge :: "string \<Rightarrow> string \<Rightarrow> attrs \<Rightarrow> digraph \<Rightarrow> digraph" where
  "add_edge u v a g =
     \<lparr>nodes = add_missing v (add_missing u (nodes g)),
      edges = AList.update (u, v) (dict_update (dict_get (edges g) (u, v) []) a) (edges g)\<rparr>"

definition successors :: "digraph \<Rightarrow> string \<Rightarrow> string list" where
  "successors g u = map (\<lambda>e. snd (fst e)) (filter (\<lambda>e. fst (fst e) = u) (edges g))"

definition predecessors :: "digraph \<Rightarrow> string \<Rightarrow> string list" where
  "predecessors g v = map (\<lambda>e. fst (fst e)) (filter (\<lambda>e. snd (fst e) = v) (edges g))"

section \<open>Graph construction\<close>

datatype error = AttributeError | IndexError | KeyError | NodeNotFound | NetworkXNoPath

text \<open>
  A Python \<open>set\<close> iterates in an order that the language leaves open. The order is a
  parameter \<open>iter\<close>: \<open>iter xs\<close> is the order in which the set of the elements \<open>xs\<close> is
  iterated.
\<close>

type_synonym set_order = "string list \<Rightarrow> string list"

definition stop_words :: "string list" where
  "stop_words = [''The'', ''This'', ''That'', ''These'', ''Those'', ''A'', ''An'']"

definition extract_entities :: "set_order \<Rightarrow> string \<Rightarrow> string list" where
  "extract_entities iter text =
     (let capitalized_words = findall capitalized_re text;
          quoted_phrases = findall_group quoted_re text
      in iter (filter (\<lambda>entity. entity \<notin> set stop_words \<and> 2 < length entity)
                      (capitalized_words @ quoted_phrases)))"

definition relation_patterns :: "(re \<times> string) list" where
  "relation_patterns =
     [(seqs [noun_phrase 1, spaces, lit_ci ''is'', spaces, Alt (lit_ci ''a'') (lit_ci ''an''),
             spaces, noun_phrase 2], ''is_a''),
      (seqs [noun_phrase 1, spaces, lit_ci ''has'', spaces, noun_phrase 2], ''has''),
      (seqs [noun_phrase 1, spaces, lit_ci ''works'', spaces, lit_ci ''at'', spaces,
             noun_phrase 2], ''works_at''),
      (seqs [noun_phrase 1, spaces, lit_ci ''lives'', spaces, lit_ci ''in'', spaces,
             noun_phrase 2], ''lives_in''),
      (seqs [noun_phrase 1, spaces, lit_ci ''founded'', spaces, noun_phrase 2], ''founded''),
      (seqs [noun_phrase 1, spaces, lit_ci ''created'', spaces, noun_phrase 2], ''created'')]"

text \<open>\<open>match.group(i).strip()\<close>, which raises when the group is \<open>None\<close>.\<close>

definition strip_group :: "rmatch \<Rightarrow> nat \<Rightarrow> error + string" where
  "strip_group m i = (case group m i of None \<Rightarrow> Inl AttributeError | Some s \<Rightarrow> Inr (strip s))"

text \<open>\<open>any(s.lower() in entity.lower() for entity in entities)\<close>\<close>

definition overlaps_entity :: "string \<Rightarrow> string list \<Rightarrow> bool" where
  "overlaps_entity s entities = list_ex (\<lambda>entity. is_in (lower s) (lower entity)) entities"

fun relations_of_matches ::
  "string list \<Rightarrow> string \<Rightarrow> rmatch list \<Rightarrow> error + (string \<times> string \<times> string) list" where
  "relations_of_matches entities relation_type [] = Inr []"
| "relations_of_matches entities relation_type (m # ms) =
     (case strip_group m 1 of Inl e \<Rightarrow> Inl e | Inr subject \<Rightarrow>
       (case strip_group m 2 of Inl e \<Rightarrow> Inl e | Inr obj \<Rightarrow>
         (case relations_of_matches entities relation_type ms of Inl e \<Rightarrow> Inl e
          | Inr relations \<Rightarrow>
              Inr (if overlaps_entity subject entities \<and> overlaps_entity obj entities
                   then (subject, relation_type, obj) # relations else relations))))"

fun relations_of_patterns ::
  "string \<Rightarrow> string list \<Rightarrow> (re \<times> string) list \<Rightarrow> error + (string \<times> string \<times> string) list" where
  "relations_of_patterns text entities [] = Inr []"
| "relations_of_patterns text entities (p # ps) =
     (case relations_of_matches entities (snd p) (finditer (fst p) text) of Inl e \<Rightarrow> Inl e
      | Inr relations \<Rightarrow>
          (case relations_of_patterns text entities ps of Inl e \<Rightarrow> Inl e
           | Inr relations' \<Rightarrow> Inr (relations @ relations')))"

definition extract_relations ::
  "string \<Rightarrow> string list \<Rightarrow> error + (string \<times> string \<times> string) list" where
  "extract_relations text entities = relations_of_patterns text entities relation_patterns"

definition find_best_entity_match :: "string \<Rightarrow> string list \<Rightarrow> string option" where
  "find_best_entity_match entity entity_set =
     (let entity_lower = lower entity in
      case find (\<lambda>e. lower e = entity_lower) entity_set of
        Some e \<Rightarrow> Some e
      | None \<Rightarrow> find (\<lambda>e. is_in entity_lower (lower e) \<or> is_in (lower e) entity_lower) entity_set)"

definition add_entity :: "string \<Rightarrow> digraph \<Rightarrow> digraph" where
  "add_entity entity g = (if \<not> has_node g entity then add_node entity [(''type'', ''entity'')] g else g)"

text \<open>The test \<open>if subject_match and obj_match\<close> fails on \<open>None\<close> and on the empty string.\<close>

definition add_relation :: "string list \<Rightarrow> string \<times> string \<times> string \<Rightarrow> digraph \<Rightarrow> digraph" where
  "add_relation entities t g =
     (case t of (subject, predicate, obj) \<Rightarrow>
        (case find_best_entity_match subject entities of None \<Rightarrow> g | Some subject_match \<Rightarrow>
          (case find_best_entity_match obj entities of None \<Rightarrow> g | Some obj_match \<Rightarrow>
             if subject_match \<noteq> [] \<and> obj_match \<noteq> []
             then add_edge subject_match obj_match [(''relation'', predicate)] g else g)))"

fun build_chunks :: "set_order \<Rightarrow> string list \<Rightarrow> digraph \<Rightarrow> error + digraph" where
  "build_chunks iter [] g = Inr g"
| "build_chunks iter (chunk # chunks) g =
     (let entities = extract_entities iter chunk;
          g1 = fold add_entity entities g
      in case extract_relations chunk entities of Inl e \<Rightarrow> Inl e
         | Inr relations \<Rightarrow> build_chunks iter chunks (fold (add_relation entities) relations g1))"

definition build_graph_from_chunks :: "set_order \<Rightarrow> string list \<Rightarrow> error + digraph" where
  "build_graph_from_chunks iter text_chunks = build_chunks iter text_chunks empty_graph"

text \<open>
  \<open>build_graph\<close> hands the joined text to the text splitter of the \<open>langchain\<close> library,
  which is a parameter here: \<open>split_text\<close> is \<open>builder.text_splitter.split_text\<close>.
\<close>

definition build_graph :: "set_order \<Rightarrow> (string \<Rightarrow> string list) \<Rightarrow> string list \<Rightarrow> error + digraph" where
  "build_graph iter split_text texts =
     (if texts = [] then Inr empty_graph
      else build_graph_from_chunks iter (split_text (join_with [CHR 0x0A, CHR 0x0A] texts)))"

section \<open>Question answering\<close>

text \<open>
  The table of question templates, in the order in which the dictionary of the router
  lists them. The question is lowercased before matching.
\<close>

definition any_lazy :: "nat \<Rightarrow> re" where
  "any_lazy i = Group i (Lazy (Atom AnyChar))"

definition relationship_templates :: "re list" where
  "relationship_templates =
     [seqs [lit ''what is the relationship between '', any_lazy 1, lit '' and '', any_lazy 2,
            lit ''?''],
      seqs [lit ''how is '', any_lazy 1, lit '' related to '', any_lazy 2, lit ''?'']]"

definition what_is_templates :: "re list" where
  "what_is_templates =
     [seqs [lit ''what is '', any_lazy 1, lit ''?''],
      seqs [lit ''what are '', any_lazy 1, lit ''?'']]"

definition who_is_templates :: "re list" where
  "who_is_templates =
     [seqs [lit ''who is '', any_lazy 1, lit ''?''],
      seqs [lit ''who are '', any_lazy 1, lit ''?'']]"

definition question_patterns :: "(string \<times> re list) list" where
  "question_patterns =
     [(''relationship'', relationship_templates),
      (''what_is'', what_is_templates),
      (''who_is'', who_is_templates)]"

definition question_words :: "string list" where
  "question_words = [''What'', ''Who'', ''Where'', ''When'', ''How'', ''Why'', ''Which'']"

definition extract_entities_from_question :: "string \<Rightarrow> string list" where
  "extract_entities_from_question question =
     (let capitalized_words = findall capitalized_re question;
          quoted_phrases = findall_group quoted_re question
      in filter (\<lambda>e. e \<notin> set question_words) (capitalized_words @ quoted_phrases))"

fun first_match :: "re list \<Rightarrow> string \<Rightarrow> rmatch option" where
  "first_match [] s = None"
| "first_match (pattern # patterns) s =
     (case search pattern s of Some m \<Rightarrow> Some m | None \<Rightarrow> first_match patterns s)"

fun classify_with :: "(string \<times> re list) list \<Rightarrow> string \<Rightarrow> (string \<times> rmatch) option" where
  "classify_with [] s = None"
| "classify_with (entry # entries) s =
     (case first_match (snd entry) s of
        Some m \<Rightarrow> Some (fst entry, m)
      | None \<Rightarrow> classify_with entries s)"

definition classify_question :: "string \<Rightarrow> error + (string \<times> string list)" where
  "classify_question question =
     (let question_lower = lower question in
      case classify_with question_patterns question_lower of
        Some (q_type, m) \<Rightarrow>
          (if q_type = ''relationship''
           then (case strip_group m 1 of Inl e \<Rightarrow> Inl e | Inr e1 \<Rightarrow>
                  (case strip_group m 2 of Inl e \<Rightarrow> Inl e | Inr e2 \<Rightarrow> Inr (q_type, [e1, e2])))
           else (case strip_group m 1 of Inl e \<Rightarrow> Inl e | Inr e1 \<Rightarrow> Inr (q_type, [e1])))
      | None \<Rightarrow> Inr (''general'', extract_entities_from_question question))"

text \<open>
  The similarity of two strings is \<open>difflib.SequenceMatcher(None, a, b).ratio()\<close>, a
  function of the Python library; it is the parameter \<open>ratio\<close>.
\<close>

type_synonym ratio_fn = "string \<Rightarrow> string \<Rightarrow> real"

fun similar_loop :: "ratio_fn \<Rightarrow> real \<Rightarrow> string \<Rightarrow> string list \<Rightarrow> string list \<Rightarrow> string list" where
  "similar_loop ratio threshold entity_lower [] similar_entities = similar_entities"
| "similar_loop ratio threshold entity_lower (node # ns) similar_entities =
     (let node_lower = lower node in
      if entity_lower = node_lower then [node]
      else
        let s1 = (if is_in entity_lower node_lower \<or> is_in node_lower entity_lower
                  then similar_entities @ [node] else similar_entities);
            s2 = (if threshold \<le> ratio entity_lower node_lower then s1 @ [node] else s1)
        in similar_loop ratio threshold entity_lower ns s2)"

definition find_similar_entities :: "ratio_fn \<Rightarrow> digraph \<Rightarrow> string \<Rightarrow> string list" where
  "find_similar_entities ratio g entity =
     similar_loop ratio (6 / 10) (lower entity) (node_labels g) []"

record info =
  info_entity :: string
  attributes :: attrs
  outgoing_relations :: "(string \<times> string) list"
  incoming_relations :: "(string \<times> string) list"
  neighbors :: "string list"

text \<open>\<open>graph.edges[u, v]\<close> and \<open>graph.nodes[n]\<close> raise \<open>KeyError\<close> on a missing key.\<close>

definition edge_data :: "digraph \<Rightarrow> string \<Rightarrow> string \<Rightarrow> error + attrs" where
  "edge_data g u v = (case map_of (edges g) (u, v) of None \<Rightarrow> Inl KeyError | Some d \<Rightarrow> Inr d)"

definition node_data :: "digraph \<Rightarrow> string \<Rightarrow> error + attrs" where
  "node_data g n = (case map_of (nodes g) n of None \<Rightarrow> Inl KeyError | Some d \<Rightarrow> Inr d)"

text \<open>
  The entry built from \<open>edge_data = graph.edges[u, v]\<close>: the other end point \<open>other\<close> with
  \<open>edge_data.get('relation', dflt)\<close>.
\<close>

definition relation_of_edge ::
  "digraph \<Rightarrow> string \<Rightarrow> string \<Rightarrow> string \<Rightarrow> string \<Rightarrow> error + (string \<times> string)" where
  "relation_of_edge g u v dflt other =
     (case edge_data g u v of Inl e \<Rightarrow> Inl e | Inr d \<Rightarrow> Inr (other, dict_get d ''relation'' dflt))"

fun map_err :: "('a \<Rightarrow> error + 'b) \<Rightarrow> 'a list \<Rightarrow> error + 'b list" where
  "map_err f [] = Inr []"
| "map_err f (x # xs) =
     (case f x of Inl e \<Rightarrow> Inl e | Inr y \<Rightarrow>
       (case map_err f xs of Inl e \<Rightarrow> Inl e | Inr ys \<Rightarrow> Inr (y # ys)))"

text \<open>
  The result is \<open>None\<close> for the empty dictionary that the function returns on a label that
  is no node. \<open>graph.neighbors\<close> of a directed graph is \<open>graph.successors\<close>.
\<close>

definition get_entity_information :: "digraph \<Rightarrow> string \<Rightarrow> error + info option" where
  "get_entity_information g entity =
     (if \<not> has_node g entity then Inr None
      else
        (case node_data g entity of Inl e \<Rightarrow> Inl e | Inr node_attributes \<Rightarrow>
          (case map_err (\<lambda>neighbor. relation_of_edge g entity neighbor ''unknown'' neighbor)
                  (successors g entity) of Inl e \<Rightarrow> Inl e | Inr outgoing \<Rightarrow>
            (case map_err (\<lambda>predecessor.
                             relation_of_edge g predecessor entity ''unknown'' predecessor)
                    (predecessors g entity) of Inl e \<Rightarrow> Inl e | Inr incoming \<Rightarrow>
               Inr (Some \<lparr>info_entity = entity, attributes = node_attributes,
                          outgoing_relations = outgoing, incoming_relations = incoming,
                          neighbors = successors g entity\<rparr>)))))"

subsection \<open>Shortest paths\<close>

text \<open>
  \<open>networkx.shortest_path\<close> on an unweighted graph is a breadth-first search. It is
  modelled by a one-directional search from the source over paths kept in reverse. Where
  two nodes have several shortest paths, the path found here may be another one than the
  bidirectional search of the library returns; both are paths of the graph of the same
  length. \<open>None\<close> stands for the exception \<open>NetworkXNoPath\<close>, which the caller catches.
\<close>

function bfs :: "digraph \<Rightarrow> string \<Rightarrow> string list list \<Rightarrow> string list \<Rightarrow> string list option" where
  "bfs g target [] seen = None"
| "bfs g target ([] # queue) seen = bfs g target queue seen"
| "bfs g target ((u # p) # queue) seen =
     (if u = target then Some (rev (u # p))
      else
        let new = remdups (filter (\<lambda>v. v \<notin> set seen) (successors g u))
        in bfs g target (queue @ map (\<lambda>v. v # u # p) new) (seen @ new))"
  by pat_completeness auto

termination bfs
proof (relation "measures [\<lambda>(g, t, q, seen). card (set (map (\<lambda>e. snd (fst e)) (edges g)) - set seen),
                           \<lambda>(g, t, q, seen). length q]", goal_cases)
  case 1
  then show ?case by simp
next
  case (2 g target queue seen)
  then show ?case by simp
next
  case (3 g target u p queue seen new)
  let ?T = "set (map (\<lambda>e. snd (fst e)) (edges g))"
  have sub: "set new \<subseteq> ?T - set seen"
    using 3 by (auto simp: successors_def)
  show ?case
  proof (cases "new = []")
    case True
    then show ?thesis by simp
  next
    case False
    then obtain v where v: "v \<in> set new"
      by (cases new) auto
    have "?T - set (seen @ new) \<subset> ?T - set seen"
      using sub v by auto
    then have "card (?T - set (seen @ new)) < card (?T - set seen)"
      by (intro psubset_card_mono) auto
    then show ?thesis by simp
  qed
qed

definition shortest_path :: "digraph \<Rightarrow> string \<Rightarrow> string \<Rightarrow> error + string list" where
  "shortest_path g source target =
     (if \<not> has_node g source \<or> \<not> has_node g target then Inl NodeNotFound
      else case bfs g target [[source]] [source] of
             None \<Rightarrow> Inl NetworkXNoPath
           | Some path_nodes \<Rightarrow> Inr path_nodes)"

fun path_relations :: "digraph \<Rightarrow> string list \<Rightarrow> error + (string \<times> string \<times> string) list" where
  "path_relations g (source # target # ns) =
     (case edge_data g source target of Inl e \<Rightarrow> Inl e | Inr d \<Rightarrow>
       (case path_relations g (target # ns) of Inl e \<Rightarrow> Inl e | Inr path_rels \<Rightarrow>
          Inr ((source, dict_get d ''relation'' ''connected_to'', target) # path_rels)))"
| "path_relations g [source] = Inr []"
| "path_relations g [] = Inr []"

text \<open>Only \<open>NetworkXNoPath\<close> is caught.\<close>

definition find_path_between_entities ::
  "digraph \<Rightarrow> string \<Rightarrow> string \<Rightarrow> error + (string \<times> string \<times> string) list" where
  "find_path_between_entities g entity1 entity2 =
     (case shortest_path g entity1 entity2 of
        Inl e \<Rightarrow> (if e = NetworkXNoPath then Inr [] else Inl e)
      | Inr path_nodes \<Rightarrow> path_relations g path_nodes)"

subsection \<open>Answers\<close>

definition bind_err :: "error + 'a \<Rightarrow> ('a \<Rightarrow> error + 'b) \<Rightarrow> error + 'b" where
  "bind_err x f = (case x of Inl e \<Rightarrow> Inl e | Inr a \<Rightarrow> f a)"

text \<open>\<open>xs[i]\<close> for \<open>i \<ge> 0\<close>.\<close>

definition index :: "'a list \<Rightarrow> nat \<Rightarrow> error + 'a" where
  "index xs i = (if i < length xs then Inr (xs ! i) else Inl IndexError)"

definition squote :: string where
  "squote = [CHR 0x27]"

definition newline :: string where
  "newline = [CHR 0x0A]"

definition no_information :: "string \<Rightarrow> string" where
  "no_information entity =
     ''I don't have information about '' @ squote @ entity @ squote @ '' in the knowledge graph.''"

definition found_without_details :: "string \<Rightarrow> string" where
  "found_without_details target_entity =
     ''I found '' @ squote @ target_entity @ squote @ '' but don't have detailed information about it.''"

definition describe_entity :: "string \<Rightarrow> info \<Rightarrow> string" where
  "describe_entity target_entity i =
     concat
       ([''Based on the knowledge graph, here's what I know about '' @ target_entity @ '':'']
        @ (if outgoing_relations i \<noteq> []
           then [newline @ ''Relationships:'']
                @ map (\<lambda>rel. ''- '' @ target_entity @ '' '' @ snd rel @ '' '' @ fst rel)
                      (outgoing_relations i)
           else [])
        @ (if incoming_relations i \<noteq> []
           then [newline @ ''Is related to:'']
                @ map (\<lambda>rel. ''- '' @ fst rel @ '' '' @ snd rel @ '' '' @ target_entity)
                      (incoming_relations i)
           else [])
        @ (if outgoing_relations i = [] \<and> incoming_relations i = []
           then [newline @ ''No specific relationships found in the knowledge graph.'']
           else []))"

definition answer_what_is_question :: "ratio_fn \<Rightarrow> digraph \<Rightarrow> string \<Rightarrow> error + string" where
  "answer_what_is_question ratio g entity =
     (let similar_entities = find_similar_entities ratio g entity in
      if similar_entities = [] then Inr (no_information entity)
      else
        bind_err (index similar_entities 0) (\<lambda>target_entity.
        bind_err (get_entity_information g target_entity) (\<lambda>information.
          case information of
            None \<Rightarrow> Inr (found_without_details target_entity)
          | Some i \<Rightarrow> Inr (describe_entity target_entity i))))"

definition direct_relation :: "digraph \<Rightarrow> string \<Rightarrow> string \<Rightarrow> error + string" where
  "direct_relation g u v =
     bind_err (edge_data g u v) (\<lambda>d.
       Inr (u @ '' '' @ dict_get d ''relation'' ''connected_to'' @ '' '' @ v @ ''.''))"

definition answer_relationship_question ::
  "ratio_fn \<Rightarrow> digraph \<Rightarrow> string \<Rightarrow> string \<Rightarrow> error + string" where
  "answer_relationship_question ratio g entity1 entity2 =
     (let similar_entities1 = find_similar_entities ratio g entity1;
          similar_entities2 = find_similar_entities ratio g entity2
      in if similar_entities1 = [] then Inr (no_information entity1)
         else if similar_entities2 = [] then Inr (no_information entity2)
         else
           bind_err (index similar_entities1 0) (\<lambda>target_entity1.
           bind_err (index similar_entities2 0) (\<lambda>target_entity2.
             if has_edge g target_entity1 target_entity2
             then direct_relation g target_entity1 target_entity2
             else if has_edge g target_entity2 target_entity1
             then direct_relation g target_entity2 target_entity1
             else
               bind_err (find_path_between_entities g target_entity1 target_entity2) (\<lambda>path.
                 if path \<noteq> []
                 then Inr (''There is an indirect relationship: ''
                           @ join_with '' -> ''
                               (map (\<lambda>(source, relation, target).
                                       source @ '' ('' @ relation @ '') '' @ target) path))
                 else Inr (''No relationship found between '' @ target_entity1 @ '' and ''
                           @ target_entity2 @ '' in the knowledge graph.'')))))"

text \<open>
  One round of the loop of \<open>answer_general_question\<close>: the resolved entity with the labels
  \<open>info['neighbors'][:5]\<close> that its line lists, or \<open>None\<close> when the mention adds no line.
\<close>

definition general_entry ::
  "ratio_fn \<Rightarrow> digraph \<Rightarrow> string \<Rightarrow> error + (string \<times> string list) option" where
  "general_entry ratio g entity =
     (let similar_entities = find_similar_entities ratio g entity in
      if similar_entities \<noteq> []
      then
        bind_err (index similar_entities 0) (\<lambda>target_entity.
        bind_err (get_entity_information g target_entity) (\<lambda>information.
          case information of
            None \<Rightarrow> Inr None
          | Some i \<Rightarrow> Inr (Some (target_entity, take 5 (neighbors i)))))
      else Inr None)"

definition render_entry :: "string \<times> string list \<Rightarrow> string" where
  "render_entry entry =
     ''**'' @ fst entry @ ''**: Connected to '' @ join_with '', '' (snd entry)"

definition answer_general_question :: "ratio_fn \<Rightarrow> digraph \<Rightarrow> string list \<Rightarrow> error + string" where
  "answer_general_question ratio g entities =
     (if entities = [] then Inr ''I need more specific information to answer your question.''
      else
        bind_err (map_err (general_entry ratio g) entities) (\<lambda>entries.
          let relevant_info = map render_entry (concat (map (\<lambda>entry. case entry of None \<Rightarrow> [] | Some x \<Rightarrow> [x]) entries))
          in if relevant_info = []
             then Inr ''I couldn't find relevant information for the entities mentioned in your question.''
             else Inr (''Here's what I found:'' @ newline @ join_with newline relevant_info)))"

definition answer_question :: "ratio_fn \<Rightarrow> digraph \<Rightarrow> string \<Rightarrow> error + string" where
  "answer_question ratio g question =
     (if number_of_nodes g = 0
      then Inr ''The knowledge graph is empty. Please ingest some text first.''
      else
        bind_err (classify_question question) (\<lambda>(question_type, entities).
          if question_type = ''what_is'' \<and> entities \<noteq> []
          then bind_err (index entities 0) (answer_what_is_question ratio g)
          else if question_type = ''who_is'' \<and> entities \<noteq> []
          then bind_err (index entities 0) (answer_what_is_question ratio g)
          else if question_type = ''relationship'' \<and> 2 \<le> length entities
          then bind_err (index entities 0) (\<lambda>entity1.
               bind_err (index entities 1) (\<lambda>entity2.
                 answer_relationship_question ratio g entity1 entity2))
          else answer_general_question ratio g entities))"

section \<open>Notions used in the statements\<close>

text \<open>The groups that take part in every match of a pattern.\<close>

fun must_groups :: "re \<Rightarrow> nat set" where
  "must_groups Eps = {}"
| "must_groups (Atom c) = {}"
| "must_groups (Seq a b) = must_groups a \<union> must_groups b"
| "must_groups (Alt a b) = must_groups a \<inter> must_groups b"
| "must_groups (Star r) = {}"
| "must_groups (Lazy r) = {}"
| "must_groups (Group i r) = insert i (must_groups r)"
| "must_groups Bnd = {}"

text \<open>
  The subject and the object that \<open>extract_relations\<close> reads from a match:
  \<open>match.group(1).strip()\<close> and \<open>match.group(2).strip()\<close>.
\<close>

definition group_text :: "rmatch \<Rightarrow> nat \<Rightarrow> string" where
  "group_text m i = (case group m i of None \<Rightarrow> [] | Some g \<Rightarrow> g)"

definition subject_of :: "rmatch \<Rightarrow> string" where
  "subject_of m = strip (group_text m 1)"

definition object_of :: "rmatch \<Rightarrow> string" where
  "object_of m = strip (group_text m 2)"

text \<open>
  The trace of graph assembly: \<open>edge_call\<close> is the \<open>add_edge\<close> call that a triple leads
  to, if any, and \<open>edge_calls\<close> lists the calls of a whole run in the order in which they
  are made.
\<close>

definition edge_call ::
  "string list \<Rightarrow> string \<times> string \<times> string \<Rightarrow> ((string \<times> string) \<times> string) option" where
  "edge_call entities t =
     (case t of (subject, predicate, obj) \<Rightarrow>
        (case find_best_entity_match subject entities of None \<Rightarrow> None | Some subject_match \<Rightarrow>
          (case find_best_entity_match obj entities of None \<Rightarrow> None | Some obj_match \<Rightarrow>
             if subject_match \<noteq> [] \<and> obj_match \<noteq> []
             then Some ((subject_match, obj_match), predicate) else None)))"

definition apply_call :: "(string \<times> string) \<times> string \<Rightarrow> digraph \<Rightarrow> digraph" where
  "apply_call c g = add_edge (fst (fst c)) (snd (fst c)) [(''relation'', snd c)] g"

fun edge_calls :: "set_order \<Rightarrow> string list \<Rightarrow> ((string \<times> string) \<times> string) list" where
  "edge_calls iter [] = []"
| "edge_calls iter (chunk # chunks) =
     (let entities = extract_entities iter chunk
      in (case extract_relations chunk entities of
            Inl e \<Rightarrow> []
          | Inr relations \<Rightarrow>
              List.map_filter (edge_call entities) relations @ edge_calls iter chunks))"

definition update_edge ::
  "(string \<times> string) \<times> string \<Rightarrow> ((string \<times> string) \<times> attrs) list
     \<Rightarrow> ((string \<times> string) \<times> attrs) list" where
  "update_edge c es =
     AList.update (fst c) (dict_update (dict_get es (fst c) []) [(''relation'', snd c)]) es"

definition relation_dicts :: "((string \<times> string) \<times> attrs) list \<Rightarrow> bool" where
  "relation_dicts es \<longleftrightarrow> (\<forall>e\<in>set es. \<exists>p. snd e = [(''relation'', p)])"

definition no_dangling :: "digraph \<Rightarrow> bool" where
  "no_dangling g \<longleftrightarrow>
     (\<forall>e\<in>set (edges g). fst (fst e) \<in> set (node_labels g) \<and> snd (fst e) \<in> set (node_labels g))"

fun is_path :: "digraph \<Rightarrow> string list \<Rightarrow> bool" where
  "is_path g (a # b # xs) = (has_edge g a b \<and> is_path g (b # xs))"
| "is_path g [a] = True"
| "is_path g [] = True"

text \<open>The sentence that \<open>answer_question\<close> returns on a graph without nodes.\<close>

definition empty_message :: string where
  "empty_message = ''The knowledge graph is empty. Please ingest some text first.''"

subsection \<open>Example inputs\<close>

text \<open>The graph of the test suite of the query router.\<close>

definition sample_graph :: digraph where
  "sample_graph =
     \<lparr>nodes = [(''Google'', [(''type'', ''Company'')]), (''Larry Page'', [(''type'', ''Person'')]),
               (''Sergey Brin'', [(''type'', ''Person'')]),
               (''Sundar Pichai'', [(''type'', ''Person'')])],
      edges = [((''Larry Page'', ''Google''), [(''relation'', ''co-founded'')]),
               ((''Sergey Brin'', ''Google''), [(''relation'', ''co-founded'')]),
               ((''Sundar Pichai'', ''Google''), [(''relation'', ''is CEO of'')])]\<rparr>"

definition campus_graph :: digraph where
  "campus_graph = \<lparr>nodes = [(''Googleplex'', []), (''Google'', [])], edges = []\<rparr>"

text \<open>Two extreme similarity functions, for inputs on which the similarity does not decide.\<close>

definition always_similar :: ratio_fn where
  "always_similar a b = 1"

definition never_similar :: ratio_fn where
  "never_similar a b = 0"

text \<open>
  A splitter that returns its text as one chunk, as the splitter of the library does for a
  text below the chunk size of 1000 characters.
\<close>

definition one_chunk :: "string \<Rightarrow> string list" where
  "one_chunk t = [t]"

definition john_text :: string where
  "john_text = ''John works at Microsoft. He lives in Seattle.''"

definition alice_text :: string where
  "alice_text = ''Alice is a researcher. She works at Stanford University.''"

definition alice_graph :: digraph where
  "alice_graph =
     \<lparr>nodes = [(''Alice'', [(''type'', ''entity'')]), (''She'', [(''type'', ''entity'')]),
               (''Stanford University'', [(''type'', ''entity'')])],
      edges = [((''She'', ''Stanford University''), [(''relation'', ''works_at'')])]\<rparr>"

definition acme_chunks :: "string list" where
  "acme_chunks = [''Alice founded Acme'', ''Alice created Acme'']"

definition developer_text :: string where
  "developer_text = ''John is a developer. Mary has experience.''"

definition apple_text :: string where
  "apple_text = ''the Apple has Seeds''"

definition inbound_graph :: digraph where
  "inbound_graph =
     \<lparr>nodes = [(''Alpha'', []), (''Beta'', [])],
      edges = [((''Beta'', ''Alpha''), [(''relation'', ''knows'')])]\<rparr>"

text \<open>A node with six successors and one predecessor.\<close>

definition hub_graph :: digraph where
  "hub_graph =
     \<lparr>nodes = [(''Hub'', []), (''Na'', []), (''Nb'', []), (''Nc'', []), (''Nd'', []),
               (''Ne'', []), (''Nf'', []), (''Pz'', [])],
      edges = [((''Hub'', ''Na''), [(''relation'', ''has'')]),
               ((''Pz'', ''Hub''), [(''relation'', ''founded'')]),
               ((''Hub'', ''Nb''), [(''relation'', ''has'')]),
               ((''Hub'', ''Nc''), [(''relation'', ''has'')]),
               ((''Hub'', ''Nd''), [(''relation'', ''has'')]),
               ((''Hub'', ''Ne''), [(''relation'', ''has'')]),
               ((''Hub'', ''Nf''), [(''relation'', ''has'')])]\<rparr>"

definition unknown_graph :: digraph where
  "unknown_graph = \<lparr>nodes = [(''Unknown Entity'', [])], edges = []\<rparr>"

section \<open>Character classes on the bits of a character\<close>

text \<open>
  The character classes as conditions on the eight bits of a character. Evaluation uses
  these equations in place of the arithmetic on character codes.
\<close>

lemma is_upper_code [code]:
  "is_upper (Char b0 b1 b2 b3 b4 b5 b6 b7) \<longleftrightarrow>
     \<not> b7 \<and> b6 \<and> \<not> b5 \<and> (b0 \<or> b1 \<or> b2 \<or> b3 \<or> b4) \<and> \<not> (b4 \<and> b3 \<and> (b2 \<or> (b1 \<and> b0)))"
  by (cases b0; cases b1; cases b2; cases b3; cases b4; cases b5; cases b6; cases b7)
     (simp_all add: is_upper_def)

lemma is_lower_code [code]:
  "is_lower (Char b0 b1 b2 b3 b4 b5 b6 b7) \<longleftrightarrow>
     \<not> b7 \<and> b6 \<and> b5 \<and> (b0 \<or> b1 \<or> b2 \<or> b3 \<or> b4) \<and> \<not> (b4 \<and> b3 \<and> (b2 \<or> (b1 \<and> b0)))"
  by (cases b0; cases b1; cases b2; cases b3; cases b4; cases b5; cases b6; cases b7)
     (simp_all add: is_lower_def)

lemma is_digit_code [code]:
  "is_digit (Char b0 b1 b2 b3 b4 b5 b6 b7) \<longleftrightarrow>
     \<not> b7 \<and> \<not> b6 \<and> b5 \<and> b4 \<and> \<not> (b3 \<and> (b2 \<or> b1))"
  by (cases b0; cases b1; cases b2; cases b3; cases b4; cases b5; cases b6; cases b7)
     (simp_all add: is_digit_def)

lemma is_space_code [code]:
  "is_space (Char b0 b1 b2 b3 b4 b5 b6 b7) \<longleftrightarrow>
     \<not> b7 \<and> \<not> b6 \<and>
     ((\<not> b5 \<and> \<not> b4 \<and> b3 \<and> (b0 \<or> b1 \<or> b2) \<and> \<not> (b2 \<and> b1))
      \<or> (\<not> b5 \<and> b4 \<and> b3 \<and> b2)
      \<or> (b5 \<and> \<not> b4 \<and> \<not> b3 \<and> \<not> b2 \<and> \<not> b1 \<and> \<not> b0))"
  by (cases b0; cases b1; cases b2; cases b3; cases b4; cases b5; cases b6; cases b7)
     (simp_all add: is_space_def)

lemma lower_char_code [code]:
  "lower_char (Char b0 b1 b2 b3 b4 b5 b6 b7) =
     (if is_upper (Char b0 b1 b2 b3 b4 b5 b6 b7) then Char b0 b1 b2 b3 b4 True b6 b7
      else Char b0 b1 b2 b3 b4 b5 b6 b7)"
  by (cases b0; cases b1; cases b2; cases b3; cases b4; cases b5; cases b6; cases b7)
     (simp_all add: lower_char_def is_upper_def char_of_def bit_0)

section \<open>Regular expressions: repetition and groups\<close>

lemma star_greedy_fuel:
  "length (rest s) \<le> n \<Longrightarrow> length (rest s) \<le> m \<Longrightarrow> star_greedy f n s = star_greedy f m s"
proof (induction n arbitrary: m s)
  case 0
  then show ?case by (cases m) (simp_all cong: map_cong)
next
  case (Suc n)
  show ?case
  proof (cases m)
    case 0
    with Suc.prems show ?thesis by (simp cong: map_cong)
  next
    case (Suc m')
    have "(if length (rest s') < length (rest s) then star_greedy f n s' else []) =
          (if length (rest s') < length (rest s) then star_greedy f m' s' else [])" for s'
      using Suc.IH[of s' m'] Suc.prems Suc by auto
    then show ?thesis by (simp add: Suc)
  qed
qed

lemma star_lazy_fuel:
  "length (rest s) \<le> n \<Longrightarrow> length (rest s) \<le> m \<Longrightarrow> star_lazy f n s = star_lazy f m s"
proof (induction n arbitrary: m s)
  case 0
  then show ?case by (cases m) (simp_all cong: map_cong)
next
  case (Suc n)
  show ?case
  proof (cases m)
    case 0
    with Suc.prems show ?thesis by (simp cong: map_cong)
  next
    case (Suc m')
    have "(if length (rest s') < length (rest s) then star_lazy f n s' else []) =
          (if length (rest s') < length (rest s) then star_lazy f m' s' else [])" for s'
      using Suc.IH[of s' m'] Suc.prems Suc by auto
    then show ?thesis by (simp add: Suc)
  qed
qed

text \<open>
  A repetition, a sequence, an alternative and a group only add captures, and a group that
  lies on every path through the pattern is captured in every match.
\<close>

lemma star_greedy_caps:
  assumes f: "\<And>s s'. s' \<in> set (f s) \<Longrightarrow> fst ` set (caps s) \<subseteq> fst ` set (caps s')"
  shows "s' \<in> set (star_greedy f n s) \<Longrightarrow> fst ` set (caps s) \<subseteq> fst ` set (caps s')"
proof (induction n arbitrary: s)
  case 0
  then show ?case by simp
next
  case (Suc n)
  from Suc.prems consider "s' = s"
    | t where "t \<in> set (f s)" "s' \<in> set (star_greedy f n t)"
    by (auto split: if_splits)
  then show ?case
  proof cases
    case 1
    then show ?thesis by simp
  next
    case 2
    from f[OF 2(1)] Suc.IH[OF 2(2)] show ?thesis by blast
  qed
qed

lemma star_lazy_caps:
  assumes f: "\<And>s s'. s' \<in> set (f s) \<Longrightarrow> fst ` set (caps s) \<subseteq> fst ` set (caps s')"
  shows "s' \<in> set (star_lazy f n s) \<Longrightarrow> fst ` set (caps s) \<subseteq> fst ` set (caps s')"
proof (induction n arbitrary: s)
  case 0
  then show ?case by simp
next
  case (Suc n)
  from Suc.prems consider "s' = s"
    | t where "t \<in> set (f s)" "s' \<in> set (star_lazy f n t)"
    by (auto split: if_splits)
  then show ?case
  proof cases
    case 1
    then show ?thesis by simp
  next
    case 2
    from f[OF 2(1)] Suc.IH[OF 2(2)] show ?thesis by blast
  qed
qed

lemma matches_caps:
  "s' \<in> set (matches r s) \<Longrightarrow>
     fst ` set (caps s) \<subseteq> fst ` set (caps s') \<and> must_groups r \<subseteq> fst ` set (caps s')"
proof (induction r arbitrary: s s')
  case Eps
  then show ?case by simp
next
  case (Atom c)
  then show ?case by (auto split: list.splits if_splits)
next
  case (Seq a b)
  from Seq.prems obtain t where t: "t \<in> set (matches a s)" "s' \<in> set (matches b t)"
    by auto
  from Seq.IH(1)[OF t(1)] Seq.IH(2)[OF t(2)] show ?case by (simp add: subset_iff)
next
  case (Alt a b)
  from Alt.prems have "s' \<in> set (matches a s) \<or> s' \<in> set (matches b s)" by simp
  then show ?case
  proof
    assume "s' \<in> set (matches a s)"
    from Alt.IH(1)[OF this] show ?thesis by (simp add: subset_iff)
  next
    assume "s' \<in> set (matches b s)"
    from Alt.IH(2)[OF this] show ?thesis by (simp add: subset_iff)
  qed
next
  case (Star r)
  have step: "\<And>s s'. s' \<in> set (matches r s) \<Longrightarrow> fst ` set (caps s) \<subseteq> fst ` set (caps s')"
    using Star.IH by blast
  from Star.prems have "s' \<in> set (star_greedy (matches r) (length (rest s)) s)" by simp
  from star_greedy_caps[of "matches r", OF step this] show ?case by simp
next
  case (Lazy r)
  have step: "\<And>s s'. s' \<in> set (matches r s) \<Longrightarrow> fst ` set (caps s) \<subseteq> fst ` set (caps s')"
    using Lazy.IH by blast
  from Lazy.prems have "s' \<in> set (star_lazy (matches r) (length (rest s)) s)" by simp
  from star_lazy_caps[of "matches r", OF step this] show ?case by simp
next
  case (Group i r)
  from Group.prems obtain t where t: "t \<in> set (matches r s)"
    and s': "s' = t\<lparr>caps := (i, take (length (rest s) - length (rest t)) (rest s)) # caps t\<rparr>"
    by auto
  from Group.IH[OF t] show ?case unfolding s' by (simp add: subset_iff)
next
  case Bnd
  then show ?case by (simp split: if_splits)
qed

lemma group_present:
  assumes "e \<in> set (matches r s)" "i \<in> must_groups r"
  shows "\<exists>t. group (mk_match x e) i = Some t"
proof -
  from matches_caps[OF assms(1)] assms(2) have "i \<in> fst ` set (caps e)" by auto
  then have "map_of (caps e) i \<noteq> None" by (simp add: map_of_eq_None_iff)
  then show ?thesis by (auto simp: group_def mk_match_def)
qed

lemma search_from_groups:
  "search_from r p s = Some m \<Longrightarrow> i \<in> must_groups r \<Longrightarrow> \<exists>t. group m i = Some t"
proof (induction s arbitrary: p)
  case Nil
  note prems = Nil.prems
  show ?case
  proof (cases "matches r \<lparr>prev = p, rest = [], caps = []\<rparr>")
    case Nil
    with prems(1) show ?thesis by simp
  next
    case (Cons e es)
    then have e: "e \<in> set (matches r \<lparr>prev = p, rest = [], caps = []\<rparr>)" by simp
    from Cons prems(1) have "m = mk_match [] e" by simp
    with group_present[OF e prems(2)] show ?thesis by simp
  qed
next
  case (Cons c cs)
  note prems = Cons.prems and IH = Cons.IH
  show ?case
  proof (cases "matches r \<lparr>prev = p, rest = c # cs, caps = []\<rparr>")
    case Nil
    with prems(1) have "search_from r (Some c) cs = Some m" by simp
    from IH[OF this prems(2)] show ?thesis .
  next
    case (Cons e es)
    then have e: "e \<in> set (matches r \<lparr>prev = p, rest = c # cs, caps = []\<rparr>)" by simp
    from Cons prems(1) have "m = mk_match (c # cs) e" by simp
    with group_present[OF e prems(2)] show ?thesis by simp
  qed
qed

lemma finditer_from_groups:
  "m \<in> set (finditer_from r k p s) \<Longrightarrow> i \<in> must_groups r \<Longrightarrow> \<exists>t. group m i = Some t"
proof (induction s arbitrary: k p)
  case Nil
  note prems = Nil.prems
  show ?case
  proof (cases "matches r \<lparr>prev = p, rest = [], caps = []\<rparr>")
    case Nil
    with prems(1) have False by (cases "k = 0") simp_all
    then show ?thesis ..
  next
    case (Cons e es)
    then have e: "e \<in> set (matches r \<lparr>prev = p, rest = [], caps = []\<rparr>)" by simp
    from Cons prems(1) have "m = mk_match [] e" by (cases "k = 0") simp_all
    with group_present[OF e prems(2)] show ?thesis by simp
  qed
next
  case (Cons c cs)
  note prems = Cons.prems and IH = Cons.IH
  show ?case
  proof (cases "0 < k")
    case True
    with prems(1) have "m \<in> set (finditer_from r (k - 1) (Some c) cs)" by simp
    from IH[OF this prems(2)] show ?thesis .
  next
    case False
    show ?thesis
    proof (cases "matches r \<lparr>prev = p, rest = c # cs, caps = []\<rparr>")
      case Nil
      with False prems(1) have "m \<in> set (finditer_from r 0 (Some c) cs)" by simp
      from IH[OF this prems(2)] show ?thesis .
    next
      case (Cons e es)
      then have e: "e \<in> set (matches r \<lparr>prev = p, rest = c # cs, caps = []\<rparr>)" by simp
      from Cons False prems(1)
      have "m = mk_match (c # cs) e
         \<or> m \<in> set (finditer_from r (length (whole (mk_match (c # cs) e)) - 1) (Some c) cs)"
        by simp
      then show ?thesis
      proof
        assume "m = mk_match (c # cs) e"
        with group_present[OF e prems(2)] show ?thesis by simp
      next
        assume "m \<in> set (finditer_from r (length (whole (mk_match (c # cs) e)) - 1) (Some c) cs)"
        from IH[OF this prems(2)] show ?thesis .
      qed
    qed
  qed
qed

section \<open>Relation extraction returns\<close>

text \<open>
  Both groups of the six relation patterns take part in every match, so reading them never
  fails and \<open>extract_relations\<close> is a filter over the matches.
\<close>

lemma relation_patterns_groups:
  "p \<in> set relation_patterns \<Longrightarrow> 1 \<in> must_groups (fst p) \<and> 2 \<in> must_groups (fst p)"
  by (auto simp: relation_patterns_def seqs_def noun_phrase_def)

lemma strip_group_present:
  "group m i = Some t \<Longrightarrow> strip_group m i = Inr (strip (group_text m i))"
  by (simp add: strip_group_def group_text_def)

lemma relations_of_matches_eq:
  assumes "\<And>m. m \<in> set ms \<Longrightarrow> (\<exists>t. group m 1 = Some t) \<and> (\<exists>t. group m 2 = Some t)"
  shows "relations_of_matches entities rt ms =
           Inr (map (\<lambda>m. (subject_of m, rt, object_of m))
                    (filter (\<lambda>m. overlaps_entity (subject_of m) entities
                                \<and> overlaps_entity (object_of m) entities) ms))"
  using assms
proof (induction ms)
  case Nil
  then show ?case by simp
next
  case (Cons m ms)
  from Cons.prems[of m] obtain t1 t2 where g: "group m 1 = Some t1" "group m 2 = Some t2"
    by auto
  have IH: "relations_of_matches entities rt ms =
           Inr (map (\<lambda>m. (subject_of m, rt, object_of m))
                    (filter (\<lambda>m. overlaps_entity (subject_of m) entities
                                \<and> overlaps_entity (object_of m) entities) ms))"
    by (rule Cons.IH) (use Cons.prems in auto)
  have s1: "strip_group m 1 = Inr (subject_of m)"
    using g(1) by (simp add: strip_group_def group_text_def subject_of_def)
  have s2: "strip_group m 2 = Inr (object_of m)"
    using g(2) by (simp add: strip_group_def group_text_def object_of_def)
  show ?case
    by (simp add: s1 s2 IH del: One_nat_def)
qed

lemma relations_of_patterns_eq:
  assumes "\<And>p. p \<in> set ps \<Longrightarrow> 1 \<in> must_groups (fst p) \<and> 2 \<in> must_groups (fst p)"
  shows "relations_of_patterns text entities ps =
           Inr (concat (map (\<lambda>p. map (\<lambda>m. (subject_of m, snd p, object_of m))
                    (filter (\<lambda>m. overlaps_entity (subject_of m) entities
                                \<and> overlaps_entity (object_of m) entities)
                            (finditer (fst p) text))) ps))"
  using assms
proof (induction ps)
  case Nil
  then show ?case by simp
next
  case (Cons p ps)
  have m: "relations_of_matches entities (snd p) (finditer (fst p) text) =
           Inr (map (\<lambda>m. (subject_of m, snd p, object_of m))
                    (filter (\<lambda>m. overlaps_entity (subject_of m) entities
                                \<and> overlaps_entity (object_of m) entities)
                            (finditer (fst p) text)))"
  proof (rule relations_of_matches_eq)
    fix m assume "m \<in> set (finditer (fst p) text)"
    then have "m \<in> set (finditer_from (fst p) 0 None text)" by (simp add: finditer_def)
    from finditer_from_groups[OF this] Cons.prems[of p]
    show "(\<exists>t. group m 1 = Some t) \<and> (\<exists>t. group m 2 = Some t)" by simp
  qed
  have IH: "relations_of_patterns text entities ps =
           Inr (concat (map (\<lambda>p. map (\<lambda>m. (subject_of m, snd p, object_of m))
                    (filter (\<lambda>m. overlaps_entity (subject_of m) entities
                                \<and> overlaps_entity (object_of m) entities)
                            (finditer (fst p) text))) ps))"
    by (rule Cons.IH) (use Cons.prems in auto)
  show ?case by (simp add: m IH)
qed

lemma overlaps_entity_iff:
  "overlaps_entity s entities \<longleftrightarrow> (\<exists>e\<in>set entities. is_in (lower s) (lower e))"
  by (simp add: overlaps_entity_def list_ex_iff)

lemma extract_relations_eq:
  "extract_relations text entities =
     Inr (concat (map (\<lambda>p. map (\<lambda>m. (subject_of m, snd p, object_of m))
            (filter (\<lambda>m. (\<exists>e\<in>set entities. is_in (lower (subject_of m)) (lower e))
                        \<and> (\<exists>e\<in>set entities. is_in (lower (object_of m)) (lower e)))
                    (finditer (fst p) text))) relation_patterns))"
proof -
  have "relations_of_patterns text entities relation_patterns =
           Inr (concat (map (\<lambda>p. map (\<lambda>m. (subject_of m, snd p, object_of m))
                    (filter (\<lambda>m. overlaps_entity (subject_of m) entities
                                \<and> overlaps_entity (object_of m) entities)
                            (finditer (fst p) text))) relation_patterns))"
    by (rule relations_of_patterns_eq) (rule relation_patterns_groups)
  then show ?thesis
    by (simp add: extract_relations_def overlaps_entity_iff)
qed

section \<open>Graph assembly as a sequence of edge updates\<close>

lemma add_relation_call:
  "add_relation entities t g = (case edge_call entities t of None \<Rightarrow> g | Some c \<Rightarrow> apply_call c g)"
  by (cases t) (simp add: add_relation_def edge_call_def apply_call_def split: option.splits)

lemma fold_add_relation:
  "fold (add_relation entities) rels g = fold apply_call (List.map_filter (edge_call entities) rels) g"
  by (induction rels arbitrary: g) (simp_all add: add_relation_call split: option.splits)

lemma edges_add_entity [simp]: "edges (add_entity e g) = edges g"
  by (simp add: add_entity_def add_node_def)

lemma edges_fold_add_entity [simp]: "edges (fold add_entity es g) = edges g"
  by (induction es arbitrary: g) simp_all

lemma labels_add_entity: "set (node_labels g) \<subseteq> set (node_labels (add_entity e g))"
  by (auto simp: add_entity_def add_node_def node_labels_def has_node_def dom_update)

lemma labels_fold_add_entity: "set (node_labels g) \<subseteq> set (node_labels (fold add_entity es g))"
proof (induction es arbitrary: g)
  case Nil
  then show ?case by simp
next
  case (Cons e es)
  from labels_add_entity[of g e] Cons.IH[of "add_entity e g"] show ?case by auto
qed

lemma edges_apply_call: "edges (apply_call c g) = update_edge c (edges g)"
  by (simp add: apply_call_def add_edge_def update_edge_def)

lemma edges_fold_apply_call: "edges (fold apply_call cs g) = fold update_edge cs (edges g)"
  by (induction cs arbitrary: g) (simp_all add: edges_apply_call)

lemma build_chunks_edges:
  "\<exists>g'. build_chunks iter chunks g = Inr g'
      \<and> edges g' = fold update_edge (edge_calls iter chunks) (edges g)"
proof (induction chunks arbitrary: g)
  case Nil
  then show ?case by simp
next
  case (Cons chunk chunks)
  obtain rels where rels: "extract_relations chunk (extract_entities iter chunk) = Inr rels"
    using extract_relations_eq by blast
  let ?g1 = "fold (add_relation (extract_entities iter chunk)) rels
               (fold add_entity (extract_entities iter chunk) g)"
  from Cons.IH[of ?g1] obtain g' where g': "build_chunks iter chunks ?g1 = Inr g'"
    "edges g' = fold update_edge (edge_calls iter chunks) (edges ?g1)" by blast
  have "edges ?g1 = fold update_edge (List.map_filter (edge_call (extract_entities iter chunk)) rels) (edges g)"
    by (simp add: fold_add_relation edges_fold_apply_call)
  with g' rels show ?case by (simp add: Let_def)
qed

lemma update_edge_distinct:
  "distinct (map fst es) \<Longrightarrow> distinct (map fst (update_edge c es))"
  by (simp add: update_edge_def distinct_update)

lemma fold_update_edge_distinct:
  "distinct (map fst es) \<Longrightarrow> distinct (map fst (fold update_edge cs es))"
  by (induction cs arbitrary: es) (simp_all add: update_edge_distinct)

lemma relation_dicts_get:
  "relation_dicts es \<Longrightarrow> dict_get es k [] = [] \<or> (\<exists>p. dict_get es k [] = [(''relation'', p)])"
proof (cases "map_of es k")
  case None
  then show ?thesis by (simp add: dict_get_def)
next
  case (Some d)
  assume "relation_dicts es"
  moreover from Some have "(k, d) \<in> set es" by (rule map_of_SomeD)
  ultimately obtain p where "d = [(''relation'', p)]" by (auto simp: relation_dicts_def)
  with Some show ?thesis by (simp add: dict_get_def)
qed

lemma dict_update_relation:
  "d = [] \<or> (\<exists>p'. d = [(''relation'', p')]) \<Longrightarrow> dict_update d [(''relation'', p)] = [(''relation'', p)]"
  by (auto simp: dict_update_def)

lemma update_edge_eq:
  "relation_dicts es \<Longrightarrow> update_edge c es = AList.update (fst c) [(''relation'', snd c)] es"
  by (simp add: update_edge_def dict_update_relation[OF relation_dicts_get])

lemma set_update_subset: "set (AList.update k v al) \<subseteq> insert (k, v) (set al)"
  by (induction al) auto

lemma update_edge_relation_dicts:
  assumes "relation_dicts es"
  shows "relation_dicts (update_edge c es)"
proof -
  have "set (update_edge c es) \<subseteq> insert (fst c, [(''relation'', snd c)]) (set es)"
    by (simp add: update_edge_eq[OF assms] set_update_subset)
  with assms show ?thesis by (auto simp: relation_dicts_def)
qed

lemma fold_update_edge_map_of:
  "relation_dicts es \<Longrightarrow>
     map_of (fold update_edge cs es) k =
       (case map_of (rev cs) k of Some p \<Rightarrow> Some [(''relation'', p)] | None \<Rightarrow> map_of es k)"
proof (induction cs arbitrary: es)
  case Nil
  then show ?case by simp
next
  case (Cons c cs)
  have rd: "relation_dicts (update_edge c es)"
    by (rule update_edge_relation_dicts[OF Cons.prems])
  have step: "map_of (update_edge c es) k = (if k = fst c then Some [(''relation'', snd c)] else map_of es k)"
    by (simp add: update_edge_eq[OF Cons.prems] update_conv')
  have "map_of (fold update_edge cs (update_edge c es)) k =
       (case map_of (rev cs) k of Some p \<Rightarrow> Some [(''relation'', p)]
        | None \<Rightarrow> map_of (update_edge c es) k)"
    by (rule Cons.IH[OF rd])
  then show ?case
    by (simp add: step map_add_def split: option.splits)
qed

lemma build_graph_from_chunks_edges:
  "\<exists>g. build_graph_from_chunks iter chunks = Inr g
      \<and> distinct (map fst (edges g))
      \<and> (\<forall>k. map_of (edges g) k = map_option (\<lambda>p. [(''relation'', p)]) (map_of (rev (edge_calls iter chunks)) k))"
proof -
  from build_chunks_edges[of iter chunks empty_graph] obtain g where
    g: "build_chunks iter chunks empty_graph = Inr g"
       "edges g = fold update_edge (edge_calls iter chunks) []"
    by (auto simp: empty_graph_def)
  have rd: "relation_dicts []" by (simp add: relation_dicts_def)
  have "distinct (map fst (edges g))"
    unfolding g(2) by (rule fold_update_edge_distinct) simp
  moreover have "map_of (edges g) k = map_option (\<lambda>p. [(''relation'', p)]) (map_of (rev (edge_calls iter chunks)) k)" for k
    unfolding g(2) by (simp add: fold_update_edge_map_of[OF rd] split: option.splits)
  ultimately show ?thesis using g(1) by (auto simp: build_graph_from_chunks_def)
qed

lemma apply_call_no_dangling: "no_dangling g \<Longrightarrow> no_dangling (apply_call c g)"
proof -
  assume a: "no_dangling g"
  have keys: "fst ` set (edges (apply_call c g)) = insert (fst c) (fst ` set (edges g))"
    by (simp add: apply_call_def add_edge_def dom_update)
  have labels: "set (node_labels (apply_call c g)) = insert (fst (fst c)) (insert (snd (fst c)) (set (node_labels g)))"
    by (auto simp: apply_call_def add_edge_def node_labels_def add_missing_def)
  show ?thesis
    unfolding no_dangling_def
  proof
    fix e assume "e \<in> set (edges (apply_call c g))"
    then have "fst e \<in> insert (fst c) (fst ` set (edges g))" using keys by blast
    with a show "fst (fst e) \<in> set (node_labels (apply_call c g)) \<and> snd (fst e) \<in> set (node_labels (apply_call c g))"
      unfolding labels no_dangling_def by auto
  qed
qed

lemma fold_apply_call_no_dangling: "no_dangling g \<Longrightarrow> no_dangling (fold apply_call cs g)"
  by (induction cs arbitrary: g) (simp_all add: apply_call_no_dangling)

lemma fold_add_entity_no_dangling: "no_dangling g \<Longrightarrow> no_dangling (fold add_entity es g)"
  using labels_fold_add_entity[of g es] by (auto simp: no_dangling_def)

lemma build_chunks_no_dangling:
  "no_dangling g \<Longrightarrow> build_chunks iter chunks g = Inr g' \<Longrightarrow> no_dangling g'"
proof (induction chunks arbitrary: g)
  case Nil
  then show ?case by simp
next
  case (Cons chunk chunks)
  obtain rels where rels: "extract_relations chunk (extract_entities iter chunk) = Inr rels"
    using extract_relations_eq by blast
  let ?g1 = "fold (add_relation (extract_entities iter chunk)) rels
               (fold add_entity (extract_entities iter chunk) g)"
  have "no_dangling ?g1"
    by (simp add: fold_add_relation fold_apply_call_no_dangling fold_add_entity_no_dangling Cons.prems(1))
  moreover from Cons.prems(2) rels have "build_chunks iter chunks ?g1 = Inr g'"
    by (simp add: Let_def)
  ultimately show ?case by (rule Cons.IH)
qed

section \<open>Resolution, entity information and paths\<close>

lemma similar_loop_subset:
  "set (similar_loop ratio th el ns acc) \<subseteq> set ns \<union> set acc"
proof (induction ns arbitrary: acc)
  case Nil
  then show ?case by simp
next
  case (Cons n ns)
  show ?case
  proof (cases "el = lower n")
    case True
    then show ?thesis by simp
  next
    case False
    let ?s1 = "if is_in el (lower n) \<or> is_in (lower n) el then acc @ [n] else acc"
    let ?s2 = "if th \<le> ratio el (lower n) then ?s1 @ [n] else ?s1"
    have "similar_loop ratio th el (n # ns) acc = similar_loop ratio th el ns ?s2"
      using False by (simp add: Let_def)
    moreover have "set ?s2 \<subseteq> insert n (set acc)" by auto
    ultimately show ?thesis using Cons.IH[of ?s2] by auto
  qed
qed

lemma similar_loop_exact:
  "\<exists>n\<in>set ns. lower n = el \<Longrightarrow>
     \<exists>n. similar_loop ratio th el ns acc = [n] \<and> n \<in> set ns \<and> lower n = el"
proof (induction ns arbitrary: acc)
  case Nil
  then show ?case by simp
next
  case (Cons n ns)
  show ?case
  proof (cases "el = lower n")
    case True
    then show ?thesis by simp
  next
    case False
    let ?s1 = "if is_in el (lower n) \<or> is_in (lower n) el then acc @ [n] else acc"
    let ?s2 = "if th \<le> ratio el (lower n) then ?s1 @ [n] else ?s1"
    have eq: "similar_loop ratio th el (n # ns) acc = similar_loop ratio th el ns ?s2"
      using False by (simp add: Let_def)
    from Cons.prems False have "\<exists>n\<in>set ns. lower n = el" by auto
    from Cons.IH[OF this, of ?s2] show ?thesis unfolding eq by auto
  qed
qed

lemma find_similar_entities_nodes:
  "set (find_similar_entities ratio g entity) \<subseteq> set (node_labels g)"
  using similar_loop_subset[of ratio "6 / 10" "lower entity" "node_labels g" "[]"]
  by (simp add: find_similar_entities_def)

lemma map_err_ok:
  assumes "\<And>x. x \<in> set xs \<Longrightarrow> \<exists>y. f x = Inr y"
  shows "\<exists>ys. map_err f xs = Inr ys"
  using assms
proof (induction xs)
  case Nil
  then show ?case by simp
next
  case (Cons x xs)
  from Cons.prems[of x] obtain y where y: "f x = Inr y" by auto
  from Cons.IH Cons.prems obtain ys where ys: "map_err f xs = Inr ys" by auto
  show ?case by (simp add: y ys)
qed

lemma edge_data_ok: "has_edge g u v \<Longrightarrow> \<exists>d. edge_data g u v = Inr d"
  by (auto simp: has_edge_def edge_data_def map_of_eq_None_iff split: option.splits)

lemma successors_has_edge: "v \<in> set (successors g u) \<Longrightarrow> has_edge g u v"
  by (auto simp: successors_def has_edge_def intro: rev_image_eqI)

lemma predecessors_has_edge: "u \<in> set (predecessors g v) \<Longrightarrow> has_edge g u v"
  by (auto simp: predecessors_def has_edge_def intro: rev_image_eqI)

lemma relation_of_edge_ok: "has_edge g u v \<Longrightarrow> \<exists>r. relation_of_edge g u v dflt other = Inr r"
  using edge_data_ok[of g u v] by (auto simp: relation_of_edge_def)

lemma node_data_ok: "has_node g n \<Longrightarrow> \<exists>d. node_data g n = Inr d"
  by (auto simp: has_node_def node_labels_def node_data_def map_of_eq_None_iff split: option.splits)

lemma get_entity_information_node:
  assumes "has_node g n"
  shows "\<exists>i. get_entity_information g n = Inr (Some i) \<and> neighbors i = successors g n"
proof -
  from node_data_ok[OF assms] obtain d where d: "node_data g n = Inr d" by auto
  have "\<exists>ys. map_err (\<lambda>neighbor. relation_of_edge g n neighbor ''unknown'' neighbor) (successors g n) = Inr ys"
    by (rule map_err_ok) (rule relation_of_edge_ok, rule successors_has_edge)
  then obtain out where out: "map_err (\<lambda>neighbor. relation_of_edge g n neighbor ''unknown'' neighbor) (successors g n) = Inr out" ..
  have "\<exists>ys. map_err (\<lambda>predecessor. relation_of_edge g predecessor n ''unknown'' predecessor) (predecessors g n) = Inr ys"
    by (rule map_err_ok) (rule relation_of_edge_ok, rule predecessors_has_edge)
  then obtain inc where inc: "map_err (\<lambda>predecessor. relation_of_edge g predecessor n ''unknown'' predecessor) (predecessors g n) = Inr inc" ..
  show ?thesis
    using assms by (simp add: get_entity_information_def d out inc)
qed

lemma get_entity_information_ok: "\<exists>r. get_entity_information g n = Inr r"
proof (cases "has_node g n")
  case True
  from get_entity_information_node[OF this] show ?thesis by auto
next
  case False
  then show ?thesis by (simp add: get_entity_information_def)
qed

lemma is_path_snoc:
  "is_path g (xs @ [u]) \<Longrightarrow> has_edge g u v \<Longrightarrow> is_path g (xs @ [u, v])"
proof (induction xs rule: is_path.induct[of _ g])
  case (1 a b xs)
  then show ?case by simp
next
  case (2 a)
  then show ?case by simp
next
  case 3
  then show ?case by simp
qed

lemma bfs_is_path:
  "bfs g target queue seen = Some path \<Longrightarrow> (\<And>p. p \<in> set queue \<Longrightarrow> is_path g (rev p)) \<Longrightarrow> is_path g path"
proof (induction g target queue seen rule: bfs.induct)
  case (1 g target seen)
  then show ?case by simp
next
  case (2 g target queue seen)
  then show ?case by simp
next
  case (3 g target u p queue seen)
  show ?case
  proof (cases "u = target")
    case True
    have "is_path g (rev (u # p))" by (rule "3.prems"(2)) simp
    with True "3.prems"(1) show ?thesis by simp
  next
    case False
    let ?new = "remdups (filter (\<lambda>v. v \<notin> set seen) (successors g u))"
    from False "3.prems"(1)
    have run: "bfs g target (queue @ map (\<lambda>v. v # u # p) ?new) (seen @ ?new) = Some path"
      by (simp add: Let_def)
    show ?thesis
    proof (rule "3.IH"[OF False refl run])
      fix q assume "q \<in> set (queue @ map (\<lambda>v. v # u # p) ?new)"
      then consider "q \<in> set queue" | v where "q = v # u # p" "v \<in> set (successors g u)"
        by auto
      then show "is_path g (rev q)"
      proof cases
        case 1
        show ?thesis by (rule "3.prems"(2)) (simp add: 1)
      next
        case 2
        have "is_path g (rev (u # p))" by (rule "3.prems"(2)) simp
        then have "is_path g (rev p @ [u])" by simp
        from is_path_snoc[OF this successors_has_edge[OF 2(2)]] show ?thesis
          by (simp add: 2(1))
      qed
    qed
  qed
qed

lemma path_relations_ok: "is_path g xs \<Longrightarrow> \<exists>rs. path_relations g xs = Inr rs"
proof (induction g xs rule: path_relations.induct)
  case (1 g source target ns)
  then have e: "has_edge g source target" and p: "is_path g (target # ns)" by simp_all
  from edge_data_ok[OF e] obtain d where d: "edge_data g source target = Inr d" ..
  from "1.IH"[OF d p] obtain rs where "path_relations g (target # ns) = Inr rs" ..
  with d show ?case by simp
next
  case (2 g source)
  then show ?case by simp
next
  case (3 g)
  then show ?case by simp
qed

lemma find_path_between_entities_ok:
  assumes "has_node g u" "has_node g v"
  shows "\<exists>rs. find_path_between_entities g u v = Inr rs"
proof (cases "bfs g v [[u]] [u]")
  case None
  with assms show ?thesis by (simp add: find_path_between_entities_def shortest_path_def)
next
  case (Some path)
  have "is_path g path" by (rule bfs_is_path[OF Some]) simp
  from path_relations_ok[OF this] Some assms show ?thesis
    by (simp add: find_path_between_entities_def shortest_path_def)
qed

section \<open>Classification and answers return\<close>

lemma templates_groups:
  "p \<in> set relationship_templates \<Longrightarrow> 1 \<in> must_groups p \<and> 2 \<in> must_groups p"
  "p \<in> set what_is_templates \<Longrightarrow> 1 \<in> must_groups p"
  "p \<in> set who_is_templates \<Longrightarrow> 1 \<in> must_groups p"
  by (auto simp: relationship_templates_def what_is_templates_def who_is_templates_def
                 seqs_def any_lazy_def)

lemma search_groups:
  "search r s = Some m \<Longrightarrow> i \<in> must_groups r \<Longrightarrow> \<exists>t. group m i = Some t"
  unfolding search_def by (rule search_from_groups)

lemma first_match_Some:
  "first_match ps s = Some m \<Longrightarrow> \<exists>p\<in>set ps. search p s = Some m"
  by (induction ps) (auto split: option.splits)

lemma first_match_None:
  "first_match ps s = None \<longleftrightarrow> (\<forall>p\<in>set ps. search p s = None)"
  by (induction ps) (auto split: option.splits)

lemma strip_group_ok: "group m i = Some t \<Longrightarrow> \<exists>x. strip_group m i = Inr x"
  by (simp add: strip_group_def)

lemma classify_relationship:
  assumes "\<exists>p\<in>set relationship_templates. search p (lower question) \<noteq> None"
  shows "\<exists>e1 e2. classify_question question = Inr (''relationship'', [e1, e2])"
proof -
  from assms have "first_match relationship_templates (lower question) \<noteq> None"
    by (simp add: first_match_None)
  then obtain m where m: "first_match relationship_templates (lower question) = Some m" by auto
  from first_match_Some[OF m] obtain p where p: "p \<in> set relationship_templates"
    "search p (lower question) = Some m" by auto
  from search_groups[OF p(2)] templates_groups(1)[OF p(1)]
  obtain t1 t2 where "group m 1 = Some t1" "group m 2 = Some t2" by blast
  then have "strip_group m 1 = Inr (strip t1)" "strip_group m 2 = Inr (strip t2)"
    by (simp_all add: strip_group_def)
  with m show ?thesis
    by (simp add: classify_question_def question_patterns_def Let_def del: One_nat_def)
qed

lemma classify_question_ok:
  "\<exists>t es. classify_question question = Inr (t, es)"
proof (cases "classify_with question_patterns (lower question)")
  case None
  then show ?thesis by (simp add: classify_question_def)
next
  case (Some tm)
  obtain t m where tm: "tm = (t, m)" by (cases tm)
  from Some tm consider
      "t = ''relationship''" "first_match relationship_templates (lower question) = Some m"
    | "t = ''what_is''" "first_match what_is_templates (lower question) = Some m"
    | "t = ''who_is''" "first_match who_is_templates (lower question) = Some m"
    by (auto simp: question_patterns_def split: option.splits)
  then show ?thesis
  proof cases
    case 1
    from first_match_Some[OF 1(2)] obtain p where p: "p \<in> set relationship_templates"
      "search p (lower question) = Some m" by auto
    from search_groups[OF p(2)] templates_groups(1)[OF p(1)]
    obtain t1 t2 where "group m 1 = Some t1" "group m 2 = Some t2" by blast
    then have "strip_group m 1 = Inr (strip t1)" "strip_group m 2 = Inr (strip t2)"
      by (simp_all add: strip_group_def)
    with Some tm 1 show ?thesis
      by (simp add: classify_question_def Let_def del: One_nat_def)
  next
    case 2
    from first_match_Some[OF 2(2)] obtain p where p: "p \<in> set what_is_templates"
      "search p (lower question) = Some m" by auto
    from search_groups[OF p(2)] templates_groups(2)[OF p(1)]
    obtain t1 where "group m 1 = Some t1" by blast
    then have "strip_group m 1 = Inr (strip t1)"
      by (simp_all add: strip_group_def)
    with Some tm 2 show ?thesis
      by (simp add: classify_question_def Let_def del: One_nat_def)
  next
    case 3
    from first_match_Some[OF 3(2)] obtain p where p: "p \<in> set who_is_templates"
      "search p (lower question) = Some m" by auto
    from search_groups[OF p(2)] templates_groups(3)[OF p(1)]
    obtain t1 where "group m 1 = Some t1" by blast
    then have "strip_group m 1 = Inr (strip t1)"
      by (simp_all add: strip_group_def)
    with Some tm 3 show ?thesis
      by (simp add: classify_question_def Let_def del: One_nat_def)
  qed
qed

lemma index_ok: "i < length xs \<Longrightarrow> index xs i = Inr (xs ! i)"
  by (simp add: index_def)

lemma answer_what_is_question_ok: "\<exists>s. answer_what_is_question ratio g entity = Inr s"
proof (cases "find_similar_entities ratio g entity")
  case Nil
  then show ?thesis by (simp add: answer_what_is_question_def)
next
  case (Cons t ts)
  from get_entity_information_ok[of g t] obtain r where "get_entity_information g t = Inr r" ..
  with Cons show ?thesis
    by (cases r) (simp_all add: answer_what_is_question_def index_def bind_err_def)
qed

lemma direct_relation_ok: "has_edge g u v \<Longrightarrow> \<exists>s. direct_relation g u v = Inr s"
  using edge_data_ok[of g u v] by (auto simp: direct_relation_def bind_err_def)

lemma answer_relationship_question_ok:
  "\<exists>s. answer_relationship_question ratio g entity1 entity2 = Inr s"
proof (cases "find_similar_entities ratio g entity1")
  case Nil
  then show ?thesis by (simp add: answer_relationship_question_def)
next
  case c1: (Cons t1 ts1)
  show ?thesis
  proof (cases "find_similar_entities ratio g entity2")
    case Nil
    with c1 show ?thesis by (simp add: answer_relationship_question_def)
  next
    case c2: (Cons t2 ts2)
    have n1: "has_node g t1" using find_similar_entities_nodes[of ratio g entity1] c1
      by (simp add: has_node_def)
    have n2: "has_node g t2" using find_similar_entities_nodes[of ratio g entity2] c2
      by (simp add: has_node_def)
    from find_path_between_entities_ok[OF n1 n2] obtain rs where
      rs: "find_path_between_entities g t1 t2 = Inr rs" ..
    have body: "answer_relationship_question ratio g entity1 entity2 =
       (if has_edge g t1 t2 then direct_relation g t1 t2
        else if has_edge g t2 t1 then direct_relation g t2 t1
        else bind_err (find_path_between_entities g t1 t2) (\<lambda>path.
                 if path \<noteq> []
                 then Inr (''There is an indirect relationship: ''
                           @ join_with '' -> ''
                               (map (\<lambda>(source, relation, target).
                                       source @ '' ('' @ relation @ '') '' @ target) path))
                 else Inr (''No relationship found between '' @ t1 @ '' and ''
                           @ t2 @ '' in the knowledge graph.'')))"
      by (simp add: answer_relationship_question_def c1 c2 index_def bind_err_def)
    show ?thesis
      unfolding body
      using direct_relation_ok[of g t1 t2] direct_relation_ok[of g t2 t1]
      by (auto simp: rs bind_err_def)
  qed
qed

lemma general_entry_ok: "\<exists>r. general_entry ratio g entity = Inr r"
proof (cases "find_similar_entities ratio g entity")
  case Nil
  then show ?thesis by (simp add: general_entry_def)
next
  case (Cons t ts)
  from get_entity_information_ok[of g t] obtain r where "get_entity_information g t = Inr r" ..
  with Cons show ?thesis
    by (cases r) (simp_all add: general_entry_def index_def bind_err_def)
qed

lemma answer_general_question_ok: "\<exists>s. answer_general_question ratio g entities = Inr s"
proof -
  have "\<exists>ys. map_err (general_entry ratio g) entities = Inr ys"
    by (rule map_err_ok) (rule general_entry_ok)
  then obtain ys where "map_err (general_entry ratio g) entities = Inr ys" ..
  then show ?thesis
    by (simp add: answer_general_question_def bind_err_def Let_def)
qed

lemma answer_question_ok: "\<exists>s. answer_question ratio g question = Inr s"
proof (cases "number_of_nodes g = 0")
  case True
  then show ?thesis by (simp add: answer_question_def)
next
  case False
  from classify_question_ok[of question] obtain t es where
    c: "classify_question question = Inr (t, es)" by blast
  have i0: "es \<noteq> [] \<Longrightarrow> index es 0 = Inr (es ! 0)" by (simp add: index_def)
  have i1: "2 \<le> length es \<Longrightarrow> index es 0 = Inr (es ! 0) \<and> index es 1 = Inr (es ! 1)"
    by (cases es) (auto simp: index_def)
  show ?thesis
    using False answer_what_is_question_ok[of ratio g "es ! 0"]
      answer_relationship_question_ok[of ratio g "es ! 0" "es ! 1"]
      answer_general_question_ok[of ratio g es] i0 i1
    by (auto simp: answer_question_def c bind_err_def)
qed

section \<open>Entity resolution\<close>

text \<open>
  C8. A mention that equals the label of some node, ignoring case, resolves to a list of
  exactly one element, a node label that equals the mention ignoring case; the candidates
  collected before the exact match was met are not in the result.
\<close>

theorem exact_match_wins:
  "\<exists>n\<in>set (node_labels g). lower n = lower mention \<Longrightarrow>
     \<exists>n. find_similar_entities ratio g mention = [n] \<and> n \<in> set (node_labels g)
          \<and> lower n = lower mention"
  unfolding find_similar_entities_def by (rule similar_loop_exact)

lemma campus_labels: "node_labels campus_graph = [''Googleplex'', ''Google'']"
  by (simp add: campus_graph_def node_labels_def)

lemma campus_lower: "lower ''Google'' = lower ''google''"
  by code_simp

lemma campus_resolution:
  "find_similar_entities always_similar campus_graph ''google'' = [''Google'']"
  by code_simp

theorem exact_match_wins_witness:
  "(\<exists>n\<in>set (node_labels campus_graph). lower n = lower ''google'')
   \<and> find_similar_entities always_similar campus_graph ''google'' = [''Google'']"
  using exact_match_wins[of campus_graph "''google''" always_similar]
  by (simp add: campus_labels campus_lower campus_resolution)

lemma describe_entity_not_fallback: "describe_entity t i \<noteq> found_without_details t'"
  by (simp add: describe_entity_def found_without_details_def)

text \<open>
  C10. When entity resolution returns a non-empty list, its first element is a node of the
  graph and \<open>get_entity_information\<close> returns a non-empty result for it, so the answer to
  a what-is or who-is question describes that node and is never the sentence
  ``I found '...' but don't have detailed information about it.''
\<close>

theorem resolved_entity_is_node:
  assumes "find_similar_entities ratio g mention = t # ts"
  shows "t \<in> set (node_labels g)
       \<and> (\<exists>i. get_entity_information g t = Inr (Some i)
               \<and> answer_what_is_question ratio g mention = Inr (describe_entity t i))
       \<and> answer_what_is_question ratio g mention \<noteq> Inr (found_without_details t')"
proof -
  from find_similar_entities_nodes[of ratio g mention] assms
  have node: "t \<in> set (node_labels g)" by simp
  then have "has_node g t" by (simp add: has_node_def)
  from get_entity_information_node[OF this] obtain i where
    i: "get_entity_information g t = Inr (Some i)" by blast
  have "answer_what_is_question ratio g mention = Inr (describe_entity t i)"
    by (simp add: answer_what_is_question_def assms index_def bind_err_def i)
  with node i show ?thesis by (simp add: describe_entity_not_fallback)
qed

lemma sample_resolution:
  "find_similar_entities never_similar sample_graph ''larry'' = [''Larry Page'']"
  by code_simp

lemma sample_information:
  "get_entity_information sample_graph ''Larry Page'' =
     Inr (Some \<lparr>info_entity = ''Larry Page'', attributes = [(''type'', ''Person'')],
                outgoing_relations = [(''Google'', ''co-founded'')], incoming_relations = [],
                neighbors = [''Google'']\<rparr>)"
  by code_simp

theorem resolved_entity_is_node_witness:
  "find_similar_entities never_similar sample_graph ''larry'' = ''Larry Page'' # []
   \<and> ''Larry Page'' \<in> set (node_labels sample_graph)
   \<and> get_entity_information sample_graph ''Larry Page'' =
        Inr (Some \<lparr>info_entity = ''Larry Page'', attributes = [(''type'', ''Person'')],
                   outgoing_relations = [(''Google'', ''co-founded'')], incoming_relations = [],
                   neighbors = [''Google'']\<rparr>)
   \<and> answer_what_is_question never_similar sample_graph ''larry''
        \<noteq> Inr (found_without_details ''Larry Page'')"
  using resolved_entity_is_node[OF sample_resolution, of "''Larry Page''"]
    sample_resolution sample_information
  by (simp add: describe_entity_not_fallback)

section \<open>Question classification\<close>

text \<open>
  C9. A question in which one of the two relationship templates matches (after
  lowercasing, as the classifier searches) is classified as \<open>relationship\<close> with two
  mentions, hence never as \<open>what_is\<close> or \<open>who_is\<close>, whether or not a what-is or who-is
  template matches it too.
\<close>

theorem relationship_has_priority:
  "\<exists>p\<in>set relationship_templates. search p (lower question) \<noteq> None \<Longrightarrow>
     \<exists>e1 e2. classify_question question = Inr (''relationship'', [e1, e2])"
  by (rule classify_relationship)

lemma relationship_question_matches:
  "search (relationship_templates ! 0)
      (lower ''What is the relationship between Google and Larry Page?'') \<noteq> None
   \<and> search (what_is_templates ! 0)
      (lower ''What is the relationship between Google and Larry Page?'') \<noteq> None"
  by code_simp

lemma relationship_question_class:
  "classify_question ''What is the relationship between Google and Larry Page?''
     = Inr (''relationship'', [''google'', ''larry page''])"
  by code_simp

theorem relationship_has_priority_witness:
  "(\<exists>p\<in>set relationship_templates.
      search p (lower ''What is the relationship between Google and Larry Page?'') \<noteq> None)
   \<and> search (what_is_templates ! 0)
        (lower ''What is the relationship between Google and Larry Page?'') \<noteq> None
   \<and> classify_question ''What is the relationship between Google and Larry Page?''
        = Inr (''relationship'', [''google'', ''larry page''])"
proof -
  have h: "\<exists>p\<in>set relationship_templates.
      search p (lower ''What is the relationship between Google and Larry Page?'') \<noteq> None"
    using relationship_question_matches
    by (intro bexI[of _ "relationship_templates ! 0"]) (simp_all add: relationship_templates_def)
  from relationship_has_priority[OF h] h relationship_question_matches
    relationship_question_class
  show ?thesis by simp
qed

section \<open>Answering on any graph\<close>

lemma empty_message_contains: "is_in ''empty'' empty_message"
  by code_simp

text \<open>
  C6. On a graph without nodes \<open>answer_question\<close> returns, for every question, the one
  sentence \<open>empty_message\<close>, which contains the word ``empty''; the question is not looked
  at. On every graph and every question \<open>answer_question\<close> returns a string: none of the
  indexing, dictionary and path operations on the way raises.
\<close>

theorem answer_question_total:
  "(number_of_nodes g = 0 \<longrightarrow> answer_question ratio g question = Inr empty_message)
   \<and> is_in ''empty'' empty_message
   \<and> (\<exists>s. answer_question ratio g question = Inr s)"
  using answer_question_ok[of ratio g question] empty_message_contains
  by (simp add: answer_question_def empty_message_def)

theorem answer_question_total_witness:
  "number_of_nodes empty_graph = 0
   \<and> answer_question never_similar empty_graph ''What is Google?'' = Inr empty_message
   \<and> is_in ''empty'' empty_message"
  using answer_question_total[of empty_graph never_similar "''What is Google?''"]
  by (simp add: number_of_nodes_def empty_graph_def)

section \<open>Relation extraction and graph assembly\<close>

lemma no_dangling_empty: "no_dangling empty_graph"
  by (simp add: no_dangling_def empty_graph_def)

text \<open>
  C7. Graph assembly returns a graph for every chunk list, and every edge of that graph
  starts and ends at a node of the graph.
\<close>

theorem no_dangling_edges:
  "\<exists>g. build_graph_from_chunks iter chunks = Inr g
      \<and> (\<forall>e\<in>set (edges g). fst (fst e) \<in> set (node_labels g)
                           \<and> snd (fst e) \<in> set (node_labels g))"
proof -
  from build_chunks_edges[of iter chunks empty_graph] obtain g where
    g: "build_chunks iter chunks empty_graph = Inr g" by blast
  from build_chunks_no_dangling[OF no_dangling_empty g] have "no_dangling g" .
  with g show ?thesis by (auto simp: build_graph_from_chunks_def no_dangling_def)
qed

lemma alice_build: "build_graph_from_chunks remdups [alice_text] = Inr alice_graph"
  by code_simp

theorem no_dangling_edges_witness:
  "build_graph_from_chunks remdups [alice_text] = Inr alice_graph
   \<and> ((''She'', ''Stanford University''), [(''relation'', ''works_at'')]) \<in> set (edges alice_graph)
   \<and> ''She'' \<in> set (node_labels alice_graph)
   \<and> ''Stanford University'' \<in> set (node_labels alice_graph)"
  using no_dangling_edges[of remdups "[alice_text]"] alice_build
  by (auto simp: alice_graph_def)

text \<open>
  C4. Graph assembly returns a graph in which no ordered pair of nodes has two edges. The
  edge of a pair carries the relation of the last \<open>add_edge\<close> call made for that pair:
  a later triple that resolves to a pair with an edge overwrites its label.
\<close>

theorem one_edge_per_pair:
  "\<exists>g. build_graph_from_chunks iter chunks = Inr g
      \<and> distinct (map fst (edges g))
      \<and> (\<forall>k. map_of (edges g) k =
               map_option (\<lambda>p. [(''relation'', p)]) (map_of (rev (edge_calls iter chunks)) k))"
  by (rule build_graph_from_chunks_edges)

lemma acme_calls:
  "edge_calls remdups acme_chunks =
     [((''Alice'', ''Acme''), ''founded''), ((''Alice'', ''Acme''), ''created'')]"
  by code_simp

lemma acme_build:
  "build_graph_from_chunks remdups acme_chunks =
     Inr \<lparr>nodes = [(''Alice'', [(''type'', ''entity'')]), (''Acme'', [(''type'', ''entity'')])],
          edges = [((''Alice'', ''Acme''), [(''relation'', ''created'')])]\<rparr>"
  by code_simp

theorem one_edge_per_pair_witness:
  "edge_calls remdups acme_chunks =
     [((''Alice'', ''Acme''), ''founded''), ((''Alice'', ''Acme''), ''created'')]
   \<and> build_graph_from_chunks remdups acme_chunks =
     Inr \<lparr>nodes = [(''Alice'', [(''type'', ''entity'')]), (''Acme'', [(''type'', ''entity'')])],
          edges = [((''Alice'', ''Acme''), [(''relation'', ''created'')])]\<rparr>"
  using one_edge_per_pair[of remdups acme_chunks] acme_calls acme_build
  by simp

text \<open>
  C1, as the code has it. The triples of a chunk are, pattern by pattern and match by
  match, those matches whose lowercased subject is contained in the lowercased text of
  some entity and whose lowercased object is contained in the lowercased text of some
  entity. Containment is tested in this direction only: an entity that is contained in the
  captured text does not keep the match.
\<close>

theorem relation_kept_iff:
  "extract_relations text entities =
     Inr (concat (map (\<lambda>p. map (\<lambda>m. (subject_of m, snd p, object_of m))
            (filter (\<lambda>m. (\<exists>e\<in>set entities. is_in (lower (subject_of m)) (lower e))
                        \<and> (\<exists>e\<in>set entities. is_in (lower (object_of m)) (lower e)))
                    (finditer (fst p) text))) relation_patterns))"
  by (rule extract_relations_eq)

lemma developer_relations:
  "extract_relations developer_text [''John'', ''developer'', ''Mary'', ''experience''] =
     Inr [(''John'', ''is_a'', ''developer''), (''Mary'', ''has'', ''experience'')]"
  by code_simp

theorem relation_kept_iff_witness:
  "extract_relations developer_text [''John'', ''developer'', ''Mary'', ''experience''] =
     Inr [(''John'', ''is_a'', ''developer''), (''Mary'', ''has'', ''experience'')]
   \<and> concat (map (\<lambda>p. map (\<lambda>m. (subject_of m, snd p, object_of m))
            (filter (\<lambda>m. (\<exists>e\<in>set [''John'', ''developer'', ''Mary'', ''experience''].
                              is_in (lower (subject_of m)) (lower e))
                        \<and> (\<exists>e\<in>set [''John'', ''developer'', ''Mary'', ''experience''].
                              is_in (lower (object_of m)) (lower e)))
                    (finditer (fst p) developer_text))) relation_patterns) =
     [(''John'', ''is_a'', ''developer''), (''Mary'', ''has'', ''experience'')]"
  using relation_kept_iff[of developer_text "[''John'', ''developer'', ''Mary'', ''experience'']"]
    developer_relations
  by simp

text \<open>
  Against C1 as stated: in \<open>the Apple has Seeds\<close> the \<open>has\<close> template captures the subject
  \<open>the Apple\<close> and the object \<open>Seeds\<close>; the entity \<open>Apple\<close> is contained in the subject and
  the entity \<open>Seeds\<close> equals the object, yet the match is dropped.
\<close>

theorem relation_dropped_counterexample:
  "map subject_of (finditer (fst (relation_patterns ! 1)) apple_text) = [''the Apple'']
   \<and> map object_of (finditer (fst (relation_patterns ! 1)) apple_text) = [''Seeds'']
   \<and> is_in (lower ''Apple'') (lower ''the Apple'')
   \<and> is_in (lower ''Seeds'') (lower ''Seeds'')
   \<and> extract_relations apple_text [''Apple'', ''Seeds''] = Inr []"
  by code_simp

lemma find_in_set: "List.find P xs = Some y \<Longrightarrow> y \<in> set xs \<and> P y"
  by (induction xs) (auto split: if_splits)

lemma find_best_exact:
  assumes "e \<in> set es" and "\<And>x. x \<in> set es \<Longrightarrow> lower x = lower e \<Longrightarrow> x = e"
  shows "find_best_entity_match e es = Some e"
proof -
  have "List.find (\<lambda>x. lower x = lower e) es \<noteq> None"
    using assms(1) by (auto simp: find_None_iff)
  then obtain y where y: "List.find (\<lambda>x. lower x = lower e) es = Some y" by auto
  from find_in_set[OF y] assms(2) have "y = e" by auto
  with y show ?thesis by (simp add: find_best_entity_match_def)
qed

lemma labels_add_entity_eq:
  "set (node_labels (add_entity e g)) = insert e (set (node_labels g))"
  by (auto simp: add_entity_def add_node_def node_labels_def has_node_def dom_update)

lemma labels_fold_add_entity_eq:
  "set (node_labels (fold add_entity es g)) = set (node_labels g) \<union> set es"
  by (induction es arbitrary: g) (auto simp: labels_add_entity_eq)

lemma extract_relations_set:
  "set es = set es' \<Longrightarrow> extract_relations t es = extract_relations t es'"
  by (simp add: extract_relations_eq)

lemma john_candidates:
  "filter (\<lambda>entity. entity \<notin> set stop_words \<and> 2 < length entity)
          (findall capitalized_re john_text @ findall_group quoted_re john_text)
     = [''John'', ''Microsoft'', ''Seattle'']"
  by code_simp

lemma john_relations:
  "extract_relations john_text [''John'', ''Microsoft'', ''Seattle'']
     = Inr [(''John'', ''works_at'', ''Microsoft'')]"
  by code_simp

lemma john_lives_in_match:
  "map subject_of (finditer (fst (relation_patterns ! 3)) john_text) = [''He'']
   \<and> map object_of (finditer (fst (relation_patterns ! 3)) john_text) = [''Seattle'']"
  by code_simp

lemma john_lower:
  "lower ''John'' = ''john''" "lower ''Microsoft'' = ''microsoft''"
  "lower ''Seattle'' = ''seattle''"
  by code_simp+

lemma john_entities_match:
  assumes es: "set es = {''John'', ''Microsoft'', ''Seattle''}"
  shows "find_best_entity_match ''John'' es = Some ''John''"
    and "find_best_entity_match ''Microsoft'' es = Some ''Microsoft''"
proof -
  have cases: "x = ''John'' \<or> x = ''Microsoft'' \<or> x = ''Seattle''" if "x \<in> set es" for x
    using that es by simp
  show "find_best_entity_match ''John'' es = Some ''John''"
  proof (rule find_best_exact)
    show "''John'' \<in> set es" by (simp add: es)
  next
    fix x assume x: "x \<in> set es" and l: "lower x = lower ''John''"
    from cases[OF x] show "x = ''John''"
    proof (elim disjE)
      assume "x = ''John''" then show ?thesis .
    next
      assume "x = ''Microsoft''"
      with l have "''microsoft'' = ''john''" by (simp only: john_lower)
      then show ?thesis by simp
    next
      assume "x = ''Seattle''"
      with l have "''seattle'' = ''john''" by (simp only: john_lower)
      then show ?thesis by simp
    qed
  qed
  show "find_best_entity_match ''Microsoft'' es = Some ''Microsoft''"
  proof (rule find_best_exact)
    show "''Microsoft'' \<in> set es" by (simp add: es)
  next
    fix x assume x: "x \<in> set es" and l: "lower x = lower ''Microsoft''"
    from cases[OF x] show "x = ''Microsoft''"
    proof (elim disjE)
      assume "x = ''Microsoft''" then show ?thesis .
    next
      assume "x = ''John''"
      with l have "''john'' = ''microsoft''" by (simp only: john_lower)
      then show ?thesis by simp
    next
      assume "x = ''Seattle''"
      with l have "''seattle'' = ''microsoft''" by (simp only: john_lower)
      then show ?thesis by simp
    qed
  qed
qed

text \<open>
  C2, as the code has it. For the one text \<open>John works at Microsoft. He lives in Seattle.\<close>,
  kept as one chunk by the splitter, and for every iteration order of the entity set,
  \<open>build_graph\<close> returns a graph whose nodes are John, Microsoft and Seattle and whose only
  edge is the \<open>works_at\<close> edge from John to Microsoft. The \<open>lives in\<close> template captures the
  subject \<open>He\<close>, which no entity contains, so there is no \<open>lives_in\<close> edge.
\<close>

theorem john_graph:
  assumes iter: "\<And>xs. set (iter xs) = set xs"
      and split: "split_text john_text = [john_text]"
  shows "\<exists>g. build_graph iter split_text [john_text] = Inr g
           \<and> set (node_labels g) = {''John'', ''Microsoft'', ''Seattle''}
           \<and> edges g = [((''John'', ''Microsoft''), [(''relation'', ''works_at'')])]"
proof -
  let ?es = "extract_entities iter john_text"
  let ?g1 = "fold add_entity ?es empty_graph"
  have "?es = iter [''John'', ''Microsoft'', ''Seattle'']"
    by (simp only: extract_entities_def Let_def john_candidates)
  then have es: "set ?es = {''John'', ''Microsoft'', ''Seattle''}"
    by (simp add: iter)
  then have "set ?es = set [''John'', ''Microsoft'', ''Seattle'']" by simp
  from extract_relations_set[OF this]
  have rels: "extract_relations john_text ?es = Inr [(''John'', ''works_at'', ''Microsoft'')]"
    by (simp add: john_relations)
  note j = john_entities_match(1)[OF es] and m = john_entities_match(2)[OF es]
  let ?g = "add_edge ''John'' ''Microsoft'' [(''relation'', ''works_at'')] ?g1"
  have run: "build_graph iter split_text [john_text] = Inr ?g"
    by (simp add: build_graph_def split build_graph_from_chunks_def Let_def rels
                  add_relation_def j m)
  have "set (node_labels empty_graph) = {}"
    by (simp add: empty_graph_def node_labels_def)
  then have labels1: "set (node_labels ?g1) = {''John'', ''Microsoft'', ''Seattle''}"
    by (simp add: labels_fold_add_entity_eq es)
  have labels: "set (node_labels ?g) = {''John'', ''Microsoft'', ''Seattle''}"
    using labels1 by (auto simp: add_edge_def node_labels_def add_missing_def)
  have "edges ?g1 = []" by (simp add: empty_graph_def)
  then have "edges ?g = [((''John'', ''Microsoft''), [(''relation'', ''works_at'')])]"
    by (simp add: add_edge_def dict_get_def dict_update_def)
  with run labels show ?thesis by blast
qed

lemma john_build:
  "build_graph remdups one_chunk [john_text] =
     Inr \<lparr>nodes = [(''John'', [(''type'', ''entity'')]), (''Microsoft'', [(''type'', ''entity'')]),
                    (''Seattle'', [(''type'', ''entity'')])],
          edges = [((''John'', ''Microsoft''), [(''relation'', ''works_at'')])]\<rparr>"
  by code_simp

theorem john_graph_witness:
  "one_chunk john_text = [john_text]
   \<and> build_graph remdups one_chunk [john_text] =
     Inr \<lparr>nodes = [(''John'', [(''type'', ''entity'')]), (''Microsoft'', [(''type'', ''entity'')]),
                    (''Seattle'', [(''type'', ''entity'')])],
          edges = [((''John'', ''Microsoft''), [(''relation'', ''works_at'')])]\<rparr>"
proof -
  have h1: "\<And>xs :: string list. set (remdups xs) = set xs" by simp
  have h2: "one_chunk john_text = [john_text]" by (simp add: one_chunk_def)
  from john_graph[of remdups one_chunk, OF h1 h2] h2 john_build
  show ?thesis by simp
qed

text \<open>
  Against C2 as stated: the graph built from the text has no edge from John to Seattle.
\<close>

theorem john_lives_in_counterexample:
  "build_graph remdups one_chunk [''John works at Microsoft. He lives in Seattle.''] =
     Inr \<lparr>nodes = [(''John'', [(''type'', ''entity'')]), (''Microsoft'', [(''type'', ''entity'')]),
                    (''Seattle'', [(''type'', ''entity'')])],
          edges = [((''John'', ''Microsoft''), [(''relation'', ''works_at'')])]\<rparr>
   \<and> \<not> has_edge \<lparr>nodes = [(''John'', [(''type'', ''entity'')]), (''Microsoft'', [(''type'', ''entity'')]),
                    (''Seattle'', [(''type'', ''entity'')])],
          edges = [((''John'', ''Microsoft''), [(''relation'', ''works_at'')])]\<rparr> ''John'' ''Seattle''"
  by code_simp

section \<open>General questions and unknown entities\<close>

lemma general_entry_eq:
  "general_entry ratio g mention =
     Inr (case find_similar_entities ratio g mention of
            [] \<Rightarrow> None
          | t # ts \<Rightarrow> Some (t, take 5 (successors g t)))"
proof (cases "find_similar_entities ratio g mention")
  case Nil
  then show ?thesis by (simp add: general_entry_def)
next
  case (Cons t ts)
  from find_similar_entities_nodes[of ratio g mention] Cons
  have "has_node g t" by (simp add: has_node_def)
  from get_entity_information_node[OF this] obtain i where
    i: "get_entity_information g t = Inr (Some i)" "neighbors i = successors g t" by blast
  show ?thesis
    by (simp add: general_entry_def Cons index_def bind_err_def i)
qed

lemma map_err_map: "(\<And>x. f x = Inr (h x)) \<Longrightarrow> map_err f xs = Inr (map h xs)"
  by (induction xs) simp_all

lemma general_lines:
  "map render_entry
     (concat (map (\<lambda>entry. case entry of None \<Rightarrow> [] | Some x \<Rightarrow> [x])
        (map (\<lambda>mention. case find_similar_entities ratio g mention of
                            [] \<Rightarrow> None
                          | t # ts \<Rightarrow> Some (t, take 5 (successors g t))) mentions)))
   = map (\<lambda>t. ''**'' @ t @ ''**: Connected to '' @ join_with '', '' (take 5 (successors g t)))
       (concat (map (\<lambda>mention. take 1 (find_similar_entities ratio g mention)) mentions))"
  by (induction mentions) (simp_all add: render_entry_def split: list.splits)

text \<open>
  C3, as the code has it. For a question classified as \<open>general\<close> with a non-empty mention
  list, on a graph with nodes, the answer has one line for every mention that resolves, in
  the order of the mentions: the first candidate of the mention, followed by the first
  five successors of that node in the order of its outgoing edges. So a line lists at most
  five labels and each of them is a neighbour of the entity. Only the outgoing edges
  contribute; a predecessor is listed only if it is a successor too.
\<close>

theorem general_answer_lists_successors:
  assumes "number_of_nodes g \<noteq> 0"
      and "classify_question question = Inr (''general'', mentions)"
      and "mentions \<noteq> []"
  shows "answer_question ratio g question =
           Inr (let targets = concat (map (\<lambda>mention. take 1 (find_similar_entities ratio g mention))
                                          mentions);
                    relevant_info =
                      map (\<lambda>t. ''**'' @ t @ ''**: Connected to ''
                                @ join_with '', '' (take 5 (successors g t))) targets
                in if relevant_info = []
                   then ''I couldn't find relevant information for the entities mentioned in your question.''
                   else ''Here's what I found:'' @ newline @ join_with newline relevant_info)
       \<and> (\<forall>mention\<in>set mentions. \<forall>t\<in>set (take 1 (find_similar_entities ratio g mention)).
             t \<in> set (node_labels g)
             \<and> length (take 5 (successors g t)) \<le> 5
             \<and> set (take 5 (successors g t)) \<subseteq> set (successors g t) \<union> set (predecessors g t))"
proof -
  have a: "answer_question ratio g question = answer_general_question ratio g mentions"
    using assms by (simp add: answer_question_def bind_err_def)
  have e: "map_err (general_entry ratio g) mentions =
             Inr (map (\<lambda>mention. case find_similar_entities ratio g mention of
                            [] \<Rightarrow> None
                          | t # ts \<Rightarrow> Some (t, take 5 (successors g t))) mentions)"
    by (rule map_err_map) (rule general_entry_eq)
  have answer: "answer_general_question ratio g mentions =
           Inr (let targets = concat (map (\<lambda>mention. take 1 (find_similar_entities ratio g mention))
                                          mentions);
                    relevant_info =
                      map (\<lambda>t. ''**'' @ t @ ''**: Connected to ''
                                @ join_with '', '' (take 5 (successors g t))) targets
                in if relevant_info = []
                   then ''I couldn't find relevant information for the entities mentioned in your question.''
                   else ''Here's what I found:'' @ newline @ join_with newline relevant_info)"
    using assms(3)
    by (simp only: answer_general_question_def e bind_err_def sum.case general_lines Let_def if_False)
       simp
  have nodes: "t \<in> set (node_labels g)
             \<and> length (take 5 (successors g t)) \<le> 5
             \<and> set (take 5 (successors g t)) \<subseteq> set (successors g t) \<union> set (predecessors g t)"
    if "t \<in> set (take 1 (find_similar_entities ratio g mention))" for mention t
  proof -
    from that have "t \<in> set (find_similar_entities ratio g mention)"
      by (rule in_set_takeD)
    with find_similar_entities_nodes[of ratio g mention] have "t \<in> set (node_labels g)" by blast
    moreover have "set (take 5 (successors g t)) \<subseteq> set (successors g t)"
      by (rule set_take_subset)
    ultimately show ?thesis by auto
  qed
  from a answer nodes show ?thesis by simp
qed

lemma hub_question:
  "classify_question ''tell me about Hub'' = Inr (''general'', [''Hub''])"
  by code_simp

lemma hub_neighbours:
  "successors hub_graph ''Hub'' = [''Na'', ''Nb'', ''Nc'', ''Nd'', ''Ne'', ''Nf'']
   \<and> predecessors hub_graph ''Hub'' = [''Pz'']"
  by code_simp

lemma hub_answer:
  "answer_question never_similar hub_graph ''tell me about Hub'' =
     Inr (''Here's what I found:'' @ newline @ ''**Hub**: Connected to Na, Nb, Nc, Nd, Ne'')"
  by code_simp

theorem general_answer_lists_successors_witness:
  "number_of_nodes hub_graph \<noteq> 0
   \<and> classify_question ''tell me about Hub'' = Inr (''general'', [''Hub''])
   \<and> successors hub_graph ''Hub'' = [''Na'', ''Nb'', ''Nc'', ''Nd'', ''Ne'', ''Nf'']
   \<and> predecessors hub_graph ''Hub'' = [''Pz'']
   \<and> answer_question never_similar hub_graph ''tell me about Hub'' =
        Inr (''Here's what I found:'' @ newline @ ''**Hub**: Connected to Na, Nb, Nc, Nd, Ne'')"
proof -
  have h1: "number_of_nodes hub_graph \<noteq> 0"
    by (simp add: number_of_nodes_def hub_graph_def)
  have h3: "[''Hub''] \<noteq> []" by simp
  from general_answer_lists_successors[OF h1 hub_question h3, of never_similar]
    h1 hub_question hub_neighbours hub_answer
  show ?thesis by simp
qed

text \<open>
  Against C3 as stated: Alpha has the in-neighbour Beta and no other neighbour, and the
  line of Alpha lists no label.
\<close>

theorem in_neighbours_not_listed_counterexample:
  "classify_question ''tell me about Alpha'' = Inr (''general'', [''Alpha''])
   \<and> predecessors inbound_graph ''Alpha'' = [''Beta'']
   \<and> successors inbound_graph ''Alpha'' = []
   \<and> general_entry never_similar inbound_graph ''Alpha'' = Inr (Some (''Alpha'', []))
   \<and> answer_question never_similar inbound_graph ''tell me about Alpha'' =
        Inr (''Here's what I found:'' @ newline @ ''**Alpha**: Connected to '')"
  by code_simp

lemma similar_loop_none:
  "\<forall>n\<in>set ns. lower n \<noteq> el \<and> \<not> is_in el (lower n) \<and> \<not> is_in (lower n) el
               \<and> ratio el (lower n) < th
   \<Longrightarrow> similar_loop ratio th el ns acc = acc"
  by (induction ns arbitrary: acc) (auto simp: Let_def)

lemma unknown_question:
  "classify_question ''What is Unknown Entity?'' = Inr (''what_is'', [''unknown entity''])"
  by code_simp

lemma unknown_lower: "lower ''unknown entity'' = ''unknown entity''"
  by code_simp

lemma no_information_contains:
  "is_in ''don't have information'' (no_information ''unknown entity'')"
  by code_simp

text \<open>
  C5, as the code has it. The question \<open>What is Unknown Entity?\<close> is answered with the
  sentence ``I don't have information about 'unknown entity' in the knowledge graph.'' on
  every graph with a node in which no node resolves the mention: no label equals
  \<open>unknown entity\<close> ignoring case, contains it or is contained in it, or reaches the
  similarity 0.6.
\<close>

theorem unknown_entity_answer:
  assumes "nodes g \<noteq> []"
      and "\<forall>n\<in>set (node_labels g).
             lower n \<noteq> ''unknown entity'' \<and> \<not> is_in ''unknown entity'' (lower n)
             \<and> \<not> is_in (lower n) ''unknown entity''
             \<and> ratio ''unknown entity'' (lower n) < 6 / 10"
  shows "answer_question ratio g ''What is Unknown Entity?''
           = Inr (no_information ''unknown entity'')
         \<and> is_in ''don't have information'' (no_information ''unknown entity'')"
proof -
  from similar_loop_none[where ratio = ratio and el = "''unknown entity''" and th = "6 / 10"
      and ns = "node_labels g" and acc = "[]", OF assms(2)]
  have "find_similar_entities ratio g ''unknown entity'' = []"
    by (simp add: find_similar_entities_def unknown_lower)
  then have "answer_what_is_question ratio g ''unknown entity''
               = Inr (no_information ''unknown entity'')"
    by (simp add: answer_what_is_question_def)
  with assms(1) show ?thesis
    by (simp add: answer_question_def number_of_nodes_def unknown_question bind_err_def
                  index_def no_information_contains)
qed

lemma sample_unresolved:
  "\<forall>n\<in>set (node_labels sample_graph).
      lower n \<noteq> ''unknown entity'' \<and> \<not> is_in ''unknown entity'' (lower n)
      \<and> \<not> is_in (lower n) ''unknown entity''
      \<and> never_similar ''unknown entity'' (lower n) < 6 / 10"
  by code_simp

lemma sample_unknown:
  "find_similar_entities never_similar sample_graph ''unknown entity'' = []"
  by code_simp

theorem unknown_entity_answer_witness:
  "nodes sample_graph \<noteq> []
   \<and> find_similar_entities never_similar sample_graph ''unknown entity'' = []
   \<and> answer_question never_similar sample_graph ''What is Unknown Entity?''
        = Inr (no_information ''unknown entity'')
   \<and> is_in ''don't have information'' (no_information ''unknown entity'')"
proof -
  have h1: "nodes sample_graph \<noteq> []" by (simp add: sample_graph_def)
  from unknown_entity_answer[where g = sample_graph and ratio = never_similar,
      OF h1 sample_unresolved] h1 sample_unknown
  show ?thesis by simp
qed

text \<open>
  Against C5 as stated: on the graph with the one node \<open>Unknown Entity\<close> the answer
  describes that node and does not contain ``don't have information''.
\<close>

theorem unknown_entity_counterexample:
  "number_of_nodes unknown_graph = 1
   \<and> answer_question never_similar unknown_graph ''What is Unknown Entity?'' =
        Inr (''Based on the knowledge graph, here's what I know about Unknown Entity:''
             @ newline @ ''No specific relationships found in the knowledge graph.'')
   \<and> \<not> is_in ''don't have information''
        (''Based on the knowledge graph, here's what I know about Unknown Entity:''
             @ newline @ ''No specific relationships found in the knowledge graph.'')"
  by code_simp

end
